theory Spec2Isabelle
  imports Main "HOL-Library.Word"
begin

section \<open>Data model\<close>

text \<open>
  The indexer of \<^verbatim>\<open>internal/indexer\<close> polls a chain node for the Transfer logs of a
  token contract, decodes each log into a \<^verbatim>\<open>models.Transaction\<close> row and records its
  progress in a \<^verbatim>\<open>models.BlockProgress\<close> row.  Go's \<^verbatim>\<open>uint64\<close> is a 64-bit word, so
  that \<^verbatim>\<open>+\<close> and \<^verbatim>\<open>-\<close> wrap around as they do in the loop of
  \<^verbatim>\<open>processContractEvents\<close>; \<^verbatim>\<open>[]byte\<close>, \<^verbatim>\<open>common.Hash\<close> (32 bytes) and
  \<^verbatim>\<open>common.Address\<close> (20 bytes) are lists of bytes.
\<close>

type_synonym u64 = "64 word"
type_synonym byte = "8 word"
type_synonym hash = "byte list"
type_synonym address = "byte list"

text \<open>
  \<^verbatim>\<open>models.Transaction\<close>.  The indexer never sets \<^verbatim>\<open>ID\<close>, \<^verbatim>\<open>PriceUSD\<close>,
  \<^verbatim>\<open>ValueUSD\<close>, \<^verbatim>\<open>CreatedAt\<close> and \<^verbatim>\<open>UpdatedAt\<close>; they are left out.
  \<^verbatim>\<open>BlockTimestamp\<close> is held as seconds since the epoch.
\<close>

record Transaction =
  TxHash :: string
  BlockNumber :: u64
  LogIndex :: u64
  ContractAddress :: string
  TokenName :: string
  FromAddress :: string
  ToAddress :: string
  Amount :: string
  BlockTimestamp :: int

text \<open>\<^verbatim>\<open>indexer.ContractConfig\<close>.\<close>

record ContractConfig =
  Name :: string
  Address :: address
  StartBlock :: u64

text \<open>
  \<^verbatim>\<open>types.Log\<close> and \<^verbatim>\<open>ethereum.FilterQuery\<close> of go-ethereum, with the fields the
  indexer reads or writes.  Their field names carry a prefix, since \<^verbatim>\<open>TxHash\<close>,
  \<^verbatim>\<open>BlockNumber\<close> and \<^verbatim>\<open>Topics\<close> occur in more than one struct.  The two block
  bounds of a query are \<^verbatim>\<open>*big.Int\<close>.
\<close>

record Log =
  lTopics :: "hash list"
  lData :: "byte list"
  lBlockNumber :: u64
  lTxHash :: hash
  lIndex :: u64

record FilterQuery =
  qFromBlock :: int
  qToBlock :: int
  qAddresses :: "address list"
  qTopics :: "hash list list"

text \<open>
  Errors are values.  The constructors that wrap another error stand for the
  \<^verbatim>\<open>fmt.Errorf("...: %w", err)\<close> calls of the source.
\<close>

datatype error =
    RPCError string
  | DBError string
  | InvalidTransferEventData
  | FailedToGetBlock error
  | FailedToSaveTransaction error
  | FailedToFilterLogs error
  | FailedToProcessBlocks u64 u64 error
  | FailedToGetCurrentBlockNumber error

text \<open>The lines the indexer writes with \<^verbatim>\<open>log.Printf\<close>.\<close>

datatype LogLine =
    StoppingMonitor string
  | ErrorProcessingEvents string error
  | ErrorProcessingTransferEvent error
  | ProcessedEvents nat string u64 u64

text \<open>
  Everything a poll tick asks of the outside: the chain node behind
  \<^verbatim>\<open>ethclient.Client\<close> (\<^verbatim>\<open>BlockNumber\<close>, \<^verbatim>\<open>FilterLogs\<close>, and the header time of
  \<^verbatim>\<open>BlockByNumber\<close>), the value of \<^verbatim>\<open>viper.GetInt("indexing.batch_size")\<close>, the
  failures of the database that do not come from its contents (a lost connection), and
  \<^verbatim>\<open>common.Address.Hex\<close>, whose checksummed rendering needs Keccak-256 and is taken
  as a parameter.
\<close>

record Env =
  AddressHex :: "address \<Rightarrow> string"
  eth_BlockNumber :: "error + u64"
  eth_FilterLogs :: "FilterQuery \<Rightarrow> error + Log list"
  eth_BlockByNumber :: "int \<Rightarrow> error + u64"
  batch_size :: int
  db_First_error :: "error option"
  db_Create_error :: "Transaction \<Rightarrow> error option"

text \<open>
  The state a monitor works on: the two tables it touches and the lines it has logged.
  \<^verbatim>\<open>BlockProgress.Contract\<close> carries a unique index, so the table is a map from the
  contract's address string to \<^verbatim>\<open>LastBlock\<close>.
\<close>

record World =
  transactions :: "Transaction list"
  block_progress :: "string \<rightharpoonup> u64"
  log_output :: "LogLine list"

definition printf :: "LogLine \<Rightarrow> World \<Rightarrow> World" where
  "printf l w = w\<lparr>log_output := log_output w @ [l]\<rparr>"

section \<open>Library functions\<close>

text \<open>
  Modelled from the spec: go-ethereum's \<^verbatim>\<open>common.BytesToAddress\<close> is not part of the
  repository.  It keeps the low (last) 20 bytes of a longer slice and left-pads a
  shorter one with zeros.
\<close>

definition BytesToAddress :: "byte list \<Rightarrow> address" where
  "BytesToAddress b =
     (let b' = (if length b > 20 then drop (length b - 20) b else b)
      in replicate (20 - length b') 0 @ b')"

text \<open>
  Modelled from the spec: \<^verbatim>\<open>big.Int.SetBytes\<close> reads a slice as a big-endian unsigned
  integer, one byte after the other.
\<close>

definition SetBytes :: "byte list \<Rightarrow> nat" where
  "SetBytes buf = foldl (\<lambda>acc b. acc * 256 + unat b) 0 buf"

text \<open>
  Modelled from the spec: \<^verbatim>\<open>big.Int.String\<close> renders a non-negative integer in
  decimal, without leading zeros.
\<close>

definition digit :: "nat \<Rightarrow> char" where
  "digit d = ''0123456789abcdef'' ! d"

function String_of :: "nat \<Rightarrow> string" where
  "String_of n = (if n < 10 then [digit n] else String_of (n div 10) @ [digit (n mod 10)])"
  by pat_completeness auto
termination
  by (relation "measure id") auto

declare String_of.simps [simp del]

text \<open>
  Modelled from the spec: \<^verbatim>\<open>common.Hash.Hex\<close> is \<^verbatim>\<open>0x\<close> followed by two lower-case
  hexadecimal digits for each byte.
\<close>

definition HashHex :: "hash \<Rightarrow> string" where
  "HashHex h = ''0x'' @ concat (map (\<lambda>b. [digit (unat b div 16), digit (unat b mod 16)]) h)"

text \<open>
  The signature hash of \<^verbatim>\<open>Transfer(address,address,uint256)\<close>, the literal passed to
  \<^verbatim>\<open>common.HexToHash\<close> in \<^verbatim>\<open>processBlockRange\<close>.
\<close>

definition TransferEventSignature :: hash where
  "TransferEventSignature =
     [0xdd, 0xf2, 0x52, 0xad, 0x1b, 0xe2, 0xc8, 0x9b, 0x69, 0xc2, 0xb0, 0x68, 0xfc, 0x37, 0x8d, 0xaa,
      0x95, 0x2b, 0xa7, 0xf1, 0x63, 0xc4, 0xa1, 0x16, 0x28, 0xf5, 0x5a, 0x4d, 0xf5, 0x23, 0xb3, 0xef]"

section \<open>The stores\<close>

text \<open>
  Modelled from the spec: gorm's \<^verbatim>\<open>Create\<close> is not part of the repository.  The Event
  Store's insert returns an error for a record whose uniqueness key is already stored;
  the key is \<^verbatim>\<open>TxHash\<close>, the one field of \<^verbatim>\<open>Transaction\<close> tagged
  \<^verbatim>\<open>uniqueIndex\<close>.  An insert can also fail for a reason outside the table.
\<close>

definition db_Create :: "Env \<Rightarrow> Transaction \<Rightarrow> World \<Rightarrow> World \<times> error option" where
  "db_Create env tx w =
     (case db_Create_error env tx of
        Some e \<Rightarrow> (w, Some e)
      | None \<Rightarrow>
          if TxHash tx \<in> set (map TxHash (transactions w))
          then (w, Some (DBError ''UNIQUE constraint failed: transactions.tx_hash''))
          else (w\<lparr>transactions := transactions w @ [tx]\<rparr>, None))"

text \<open>
  \<^verbatim>\<open>getLastProcessedBlock\<close>: the stored \<^verbatim>\<open>LastBlock\<close> of the address, and 0 when
  \<^verbatim>\<open>First\<close> returns any error.  Modelled from the spec: gorm's \<^verbatim>\<open>Where\<close> and
  \<^verbatim>\<open>First\<close> are not part of the repository; the Progress Store's \<^verbatim>\<open>get\<close> answers
  the stored height of the address if there is one, and the read fails when the row is
  missing or the store cannot be reached.
\<close>

definition getLastProcessedBlock :: "Env \<Rightarrow> address \<Rightarrow> World \<Rightarrow> u64" where
  "getLastProcessedBlock env address w =
     (case db_First_error env of
        Some e \<Rightarrow> 0
      | None \<Rightarrow> (case block_progress w (AddressHex env address) of None \<Rightarrow> 0 | Some b \<Rightarrow> b))"

text \<open>
  \<^verbatim>\<open>updateLastProcessedBlock\<close> builds a new \<^verbatim>\<open>BlockProgress\<close> from the address and
  the height and hands it to \<^verbatim>\<open>Save\<close>.  The \<^verbatim>\<open>ID\<close> of that value, the primary key,
  is left at 0, so \<^verbatim>\<open>Save\<close> inserts a row; \<^verbatim>\<open>Contract\<close> is tagged
  \<^verbatim>\<open>uniqueIndex\<close>, so the insert is refused when the address has a row already.  The
  source discards the result of \<^verbatim>\<open>Save\<close>: a refused write leaves the table as it
  was and is not reported.
\<close>

definition updateLastProcessedBlock :: "Env \<Rightarrow> address \<Rightarrow> u64 \<Rightarrow> World \<Rightarrow> World" where
  "updateLastProcessedBlock env address blockNumber w =
     (case block_progress w (AddressHex env address) of
        Some b \<Rightarrow> w
      | None \<Rightarrow>
          w\<lparr>block_progress := (block_progress w)(AddressHex env address \<mapsto> blockNumber)\<rparr>)"

section \<open>The indexer\<close>

text \<open>
  \<^verbatim>\<open>processTransferEvent\<close>: the shape check, the three decoded values, the block's
  timestamp, the record and its insert.  \<^verbatim>\<open>int64(x)\<close> of an unsigned word is its
  signed reading.
\<close>

definition processTransferEvent ::
  "Env \<Rightarrow> ContractConfig \<Rightarrow> Log \<Rightarrow> World \<Rightarrow> World \<times> error option" where
  "processTransferEvent env config vLog w =
     (if length (lTopics vLog) < 3 \<or> length (lData vLog) < 32
      then (w, Some InvalidTransferEventData)
      else
        let fromAddress = BytesToAddress (lTopics vLog ! 1);
            toAddress = BytesToAddress (lTopics vLog ! 2);
            amount = SetBytes (take 32 (lData vLog))
        in case eth_BlockByNumber env (sint (lBlockNumber vLog)) of
             Inl err \<Rightarrow> (w, Some (FailedToGetBlock err))
           | Inr block_Time \<Rightarrow>
               let tx = \<lparr>TxHash = HashHex (lTxHash vLog),
                         BlockNumber = lBlockNumber vLog,
                         LogIndex = lIndex vLog,
                         ContractAddress = AddressHex env (Address config),
                         TokenName = Name config,
                         FromAddress = AddressHex env fromAddress,
                         ToAddress = AddressHex env toAddress,
                         Amount = String_of amount,
                         BlockTimestamp = sint block_Time\<rparr>
               in case db_Create env tx w of
                    (w', Some err) \<Rightarrow> (w', Some (FailedToSaveTransaction err))
                  | (w', None) \<Rightarrow> (w', None))"

text \<open>
  The \<^verbatim>\<open>for _, vLog := range logs\<close> loop of \<^verbatim>\<open>processBlockRange\<close>: an error of
  \<^verbatim>\<open>processTransferEvent\<close> is logged and the loop goes on with the next log.
\<close>

fun process_logs :: "Env \<Rightarrow> ContractConfig \<Rightarrow> Log list \<Rightarrow> World \<Rightarrow> World" where
  "process_logs env config [] w = w"
| "process_logs env config (vLog # logs) w =
     (case processTransferEvent env config vLog w of
        (w', Some err) \<Rightarrow> process_logs env config logs (printf (ErrorProcessingTransferEvent err) w')
      | (w', None) \<Rightarrow> process_logs env config logs w')"

definition transfer_query :: "ContractConfig \<Rightarrow> u64 \<Rightarrow> u64 \<Rightarrow> FilterQuery" where
  "transfer_query config fromBlock toBlock =
     \<lparr>qFromBlock = sint fromBlock,
      qToBlock = sint toBlock,
      qAddresses = [Address config],
      qTopics = [[TransferEventSignature]]\<rparr>"

definition processBlockRange ::
  "Env \<Rightarrow> ContractConfig \<Rightarrow> u64 \<Rightarrow> u64 \<Rightarrow> World \<Rightarrow> World \<times> error option" where
  "processBlockRange env config fromBlock toBlock w =
     (case eth_FilterLogs env (transfer_query config fromBlock toBlock) of
        Inl err \<Rightarrow> (w, Some (FailedToFilterLogs err))
      | Inr logs \<Rightarrow>
          (printf (ProcessedEvents (length logs) (Name config) fromBlock toBlock)
             (process_logs env config logs w), None))"

text \<open>
  The batch loop of \<^verbatim>\<open>processContractEvents\<close>.  It need not end (a batch size of 0
  never moves \<^verbatim>\<open>fromBlock\<close>), so it runs on fuel: one unit for each test of the loop
  condition.  The result is the state reached and \<^verbatim>\<open>Some r\<close> when the function has
  returned \<^verbatim>\<open>r\<close>, \<^verbatim>\<open>None\<close> when the loop is still running after that many tests.
\<close>

fun batch_loop ::
  "nat \<Rightarrow> Env \<Rightarrow> ContractConfig \<Rightarrow> u64 \<Rightarrow> u64 \<Rightarrow> u64 \<Rightarrow> World \<Rightarrow> World \<times> error option option" where
  "batch_loop 0 env config batchSize currentBlock fromBlock w = (w, None)"
| "batch_loop (Suc n) env config batchSize currentBlock fromBlock w =
     (if fromBlock \<le> currentBlock then
        let toBlock = fromBlock + batchSize - 1;
            toBlock = (if toBlock > currentBlock then currentBlock else toBlock)
        in case processBlockRange env config fromBlock toBlock w of
             (w', Some err) \<Rightarrow> (w', Some (Some (FailedToProcessBlocks fromBlock toBlock err)))
           | (w', None) \<Rightarrow>
               batch_loop n env config batchSize currentBlock (fromBlock + batchSize)
                 (updateLastProcessedBlock env (Address config) toBlock w')
      else (w, Some None))"

definition processContractEvents ::
  "nat \<Rightarrow> Env \<Rightarrow> ContractConfig \<Rightarrow> World \<Rightarrow> World \<times> error option option" where
  "processContractEvents fuel env config w =
     (let lastBlock = getLastProcessedBlock env (Address config) w;
          lastBlock = (if lastBlock < StartBlock config then StartBlock config else lastBlock)
      in case eth_BlockNumber env of
           Inl err \<Rightarrow> (w, Some (Some (FailedToGetCurrentBlockNumber err)))
         | Inr currentBlock \<Rightarrow>
             if lastBlock \<ge> currentBlock then (w, Some None)
             else batch_loop fuel env config (word_of_int (batch_size env)) currentBlock
                    (lastBlock + 1) w)"

text \<open>
  The \<^verbatim>\<open>select\<close> loop of \<^verbatim>\<open>monitorContract\<close>, run over the events it receives, a stop
  signal or a tick of the timer with the outside as it stands at that tick.  An error of
  the tick is logged and the loop waits for the next event.  The result is the state and
  whether the monitor has returned.
\<close>

datatype Event = StopSignal | Tick Env

fun monitor_loop :: "nat \<Rightarrow> ContractConfig \<Rightarrow> Event list \<Rightarrow> World \<Rightarrow> World \<times> bool" where
  "monitor_loop fuel config [] w = (w, False)"
| "monitor_loop fuel config (StopSignal # evs) w = (printf (StoppingMonitor (Name config)) w, True)"
| "monitor_loop fuel config (Tick env # evs) w =
     (case processContractEvents fuel env config w of
        (w', None) \<Rightarrow> (w', False)
      | (w', Some None) \<Rightarrow> monitor_loop fuel config evs w'
      | (w', Some (Some err)) \<Rightarrow>
          monitor_loop fuel config evs (printf (ErrorProcessingEvents (Name config) err) w'))"

section \<open>Notions of the specification\<close>

text \<open>
  The specification's words, to state the claims with: the low \<open>n\<close> bytes of a
  big-endian value, the unsigned integer a byte string denotes, the number a decimal
  string denotes, the block ranges a monitor reports as processed, and a list of ranges
  that tiles \<open>[from, to]\<close> with consecutive pieces of width at most \<open>M\<close>.
\<close>

definition low_bytes :: "nat \<Rightarrow> byte list \<Rightarrow> byte list" where
  "low_bytes n bs = drop (length bs - n) bs"

fun be_uint :: "byte list \<Rightarrow> nat" where
  "be_uint [] = 0"
| "be_uint (b # bs) = unat b * 256 ^ length bs + be_uint bs"

definition digit_value :: "char \<Rightarrow> nat" where
  "digit_value c = of_char c - 48"

definition decimal_value :: "string \<Rightarrow> nat" where
  "decimal_value s = foldl (\<lambda>acc c. acc * 10 + digit_value c) 0 s"

fun processed_ranges :: "LogLine list \<Rightarrow> (nat \<times> nat) list" where
  "processed_ranges [] = []"
| "processed_ranges (ProcessedEvents n name fromBlock toBlock # ls) =
     (unat fromBlock, unat toBlock) # processed_ranges ls"
| "processed_ranges (l # ls) = processed_ranges ls"

fun tiles :: "nat \<Rightarrow> nat \<Rightarrow> nat \<Rightarrow> (nat \<times> nat) list \<Rightarrow> bool" where
  "tiles M from to [] = (from = to + 1)"
| "tiles M from to ((f, t) # cs) =
     (f = from \<and> f \<le> t \<and> t \<le> to \<and> t - f + 1 \<le> M \<and> tiles M (t + 1) to cs)"

text \<open>The stored checkpoint of a contract, as the Progress Store holds it.\<close>

definition checkpoint :: "Env \<Rightarrow> ContractConfig \<Rightarrow> World \<Rightarrow> u64 option" where
  "checkpoint env config w = block_progress w (AddressHex env (Address config))"

text \<open>
  The \<^verbatim>\<open>toBlock\<close> that the batch loop computes for the chunk that starts at
  \<^verbatim>\<open>fromBlock\<close>, and the order in which two readings of a checkpoint follow each
  other when it never decreases: an absent checkpoint comes before any other.
\<close>

definition chunk_end :: "u64 \<Rightarrow> u64 \<Rightarrow> u64 \<Rightarrow> u64" where
  "chunk_end batchSize currentBlock fromBlock =
     (if fromBlock + batchSize - 1 > currentBlock then currentBlock else fromBlock + batchSize - 1)"

fun checkpoint_le :: "u64 option \<Rightarrow> u64 option \<Rightarrow> bool" where
  "checkpoint_le None c = True"
| "checkpoint_le (Some a) None = False"
| "checkpoint_le (Some a) (Some b) = (a \<le> b)"

text \<open>
  The two conditions on a tick under which the chunks it works on lie after the stored
  checkpoint and after the start height: the progress table can be read, and the chain
  height plus the batch size (as the \<^verbatim>\<open>uint64\<close> the loop adds) stays below \<open>2\<^sup>6\<^sup>4\<close>.
\<close>

definition readable :: "Env \<Rightarrow> bool" where
  "readable env = (db_First_error env = None)"

definition in_range :: "Env \<Rightarrow> bool" where
  "in_range env =
     (case eth_BlockNumber env of
        Inl err \<Rightarrow> True
      | Inr currentBlock \<Rightarrow>
          unat currentBlock + unat (word_of_int (batch_size env) :: u64) < 2 ^ 64)"

section \<open>Concrete instances\<close>

text \<open>
  A contract watched from block 100, a node at height 250 that reports no logs, a batch
  size of 50, empty tables; a well-formed Transfer log of 42 units in block 120 and a log
  that lacks its indexed topics.
\<close>

definition example_config :: ContractConfig where
  "example_config = \<lparr>Name = ''USDC'', Address = replicate 20 0xA0, StartBlock = 100\<rparr>"

definition quiet_env :: Env where
  "quiet_env =
     \<lparr>AddressHex = HashHex,
      eth_BlockNumber = Inr 250,
      eth_FilterLogs = (\<lambda>q. Inr []),
      eth_BlockByNumber = (\<lambda>n. Inr 1700000000),
      batch_size = 50,
      db_First_error = None,
      db_Create_error = (\<lambda>tx. None)\<rparr>"

definition empty_world :: World where
  "empty_world = \<lparr>transactions = [], block_progress = Map.empty, log_output = []\<rparr>"

definition transfer_log :: Log where
  "transfer_log =
     \<lparr>lTopics = [TransferEventSignature,
                 replicate 12 0 @ replicate 20 0x11,
                 replicate 12 0 @ replicate 20 0x22],
      lData = replicate 31 0 @ [42],
      lBlockNumber = 120,
      lTxHash = replicate 32 0xAB,
      lIndex = 0\<rparr>"

definition short_log :: Log where
  "short_log = transfer_log\<lparr>lTopics := [TransferEventSignature], lTxHash := replicate 32 0xCD\<rparr>"

text \<open>
  A log of the right shape whose first topic is not the Transfer signature; a node at
  height 150 that returns the Transfer log for every query, in front of a store that
  refuses every insert, or of one that works.
\<close>

definition foreign_log :: Log where
  "foreign_log = transfer_log\<lparr>lTopics := replicate 32 0 # tl (lTopics transfer_log)\<rparr>"

definition busy_env :: Env where
  "busy_env = quiet_env\<lparr>eth_BlockNumber := Inr 150, eth_FilterLogs := (\<lambda>q. Inr [transfer_log])\<rparr>"

definition failing_store_env :: Env where
  "failing_store_env = busy_env\<lparr>db_Create_error := (\<lambda>tx. Some (DBError ''connection lost''))\<rparr>"

text \<open>
  A second Transfer log, of another transaction, and the state after the chunk
  \<open>[101, 150]\<close> has been indexed once from the node that returns the first log.
\<close>

definition second_log :: Log where
  "second_log = transfer_log\<lparr>lData := replicate 31 0 @ [7], lTxHash := replicate 32 0xEF\<rparr>"

definition indexed_world :: World where
  "indexed_world = fst (processBlockRange busy_env example_config 101 150 empty_world)"

text \<open>
  The same node at the largest height a \<^verbatim>\<open>uint64\<close> holds, with a batch size of 1; the
  quiet node with a batch size of 0, and with a batch size of -1; a store whose progress
  table cannot be read; and a state whose checkpoint is 150, or one block short of the
  largest height.
\<close>

definition edge_env :: Env where
  "edge_env = quiet_env\<lparr>eth_BlockNumber := Inr 18446744073709551615, batch_size := 1\<rparr>"

definition zero_batch_env :: Env where
  "zero_batch_env = quiet_env\<lparr>batch_size := 0\<rparr>"

definition negative_batch_env :: Env where
  "negative_batch_env = quiet_env\<lparr>batch_size := - 1\<rparr>"

definition unreadable_env :: Env where
  "unreadable_env = quiet_env\<lparr>db_First_error := Some (DBError ''connection lost'')\<rparr>"

definition resumed_world :: World where
  "resumed_world =
     empty_world\<lparr>block_progress := [HashHex (Address example_config) \<mapsto> 150]\<rparr>"

definition edge_world :: World where
  "edge_world =
     empty_world\<lparr>block_progress := [HashHex (Address example_config) \<mapsto> 18446744073709551614]\<rparr>"

text \<open>
  A node whose log query times out for the chunk that starts at block \<open>b\<close> and answers
  as before for every other chunk; and the node that returns the Transfer log when it
  cannot deliver the header of any block.
\<close>

definition flaky_at :: "int \<Rightarrow> Env \<Rightarrow> Env" where
  "flaky_at b env =
     env\<lparr>eth_FilterLogs :=
       (\<lambda>q. if qFromBlock q = b then Inl (RPCError ''timeout'') else eth_FilterLogs env q)\<rparr>"

definition headerless_env :: Env where
  "headerless_env = busy_env\<lparr>eth_BlockByNumber := (\<lambda>n. Inl (RPCError ''timeout''))\<rparr>"

section \<open>Evaluation and frame lemmas\<close>

lemmas indexer_defs =
  processTransferEvent_def processBlockRange_def processContractEvents_def
  getLastProcessedBlock_def updateLastProcessedBlock_def db_Create_def transfer_query_def
  printf_def checkpoint_def BytesToAddress_def SetBytes_def HashHex_def digit_def Let_def

lemmas instance_defs =
  example_config_def quiet_env_def empty_world_def transfer_log_def short_log_def
  foreign_log_def busy_env_def failing_store_env_def second_log_def indexed_world_def
  edge_env_def zero_batch_env_def negative_batch_env_def unreadable_env_def resumed_world_def
  edge_world_def flaky_at_def headerless_env_def

lemma replicate_numeral_Cons: "replicate (numeral k) x = x # replicate (pred_numeral k) x"
  by (simp add: numeral_eq_Suc)

lemma processTransferEvent_block_progress:
  "block_progress (fst (processTransferEvent env config vLog w)) = block_progress w"
  by (auto simp: processTransferEvent_def db_Create_def Let_def split: sum.splits option.splits)

lemma processTransferEvent_log_output:
  "log_output (fst (processTransferEvent env config vLog w)) = log_output w"
  by (auto simp: processTransferEvent_def db_Create_def Let_def split: sum.splits option.splits)

lemma processTransferEvent_cong:
  assumes "transactions w1 = transactions w2"
  shows "snd (processTransferEvent env config vLog w1) = snd (processTransferEvent env config vLog w2)"
    and "transactions (fst (processTransferEvent env config vLog w1)) =
         transactions (fst (processTransferEvent env config vLog w2))"
  using assms
  by (auto simp: processTransferEvent_def db_Create_def Let_def split: sum.splits option.splits)

lemma process_logs_block_progress:
  "block_progress (process_logs env config logs w) = block_progress w"
proof (induction logs arbitrary: w)
  case Nil
  show ?case by simp
next
  case (Cons l logs)
  obtain w' r where p: "processTransferEvent env config l w = (w', r)"
    by (cases "processTransferEvent env config l w")
  have "block_progress w' = block_progress w"
    using processTransferEvent_block_progress [of env config l w] p by simp
  then show ?case
    using p Cons.IH by (cases r) (simp_all add: printf_def)
qed

lemma process_logs_transactions_cong:
  "transactions w1 = transactions w2 \<Longrightarrow>
   transactions (process_logs env config logs w1) = transactions (process_logs env config logs w2)"
proof (induction logs arbitrary: w1 w2)
  case Nil
  then show ?case by simp
next
  case (Cons l logs)
  obtain a1 r1 where p1: "processTransferEvent env config l w1 = (a1, r1)"
    by (cases "processTransferEvent env config l w1")
  obtain a2 r2 where p2: "processTransferEvent env config l w2 = (a2, r2)"
    by (cases "processTransferEvent env config l w2")
  have r: "r1 = r2" and t: "transactions a1 = transactions a2"
    using processTransferEvent_cong [OF Cons.prems, of env config l] p1 p2 by simp_all
  show ?case
  proof (cases r1)
    case None
    then show ?thesis using p1 p2 r [symmetric] t Cons.IH [of a1 a2] by simp
  next
    case (Some e)
    have "transactions (printf (ErrorProcessingTransferEvent e) a1) =
          transactions (printf (ErrorProcessingTransferEvent e) a2)"
      using t by (simp add: printf_def)
    from Cons.IH [OF this] show ?thesis using p1 p2 r [symmetric] Some by simp
  qed
qed

lemma process_logs_append:
  "process_logs env config (xs @ ys) w = process_logs env config ys (process_logs env config xs w)"
  by (induction xs arbitrary: w) (auto split: prod.splits option.splits)

section \<open>The decoder\<close>

lemma BytesToAddress_low: "20 \<le> length b \<Longrightarrow> BytesToAddress b = low_bytes 20 b"
  by (simp add: BytesToAddress_def low_bytes_def Let_def)

lemma foldl_be_uint:
  "foldl (\<lambda>acc b. acc * 256 + unat b) a bs = a * 256 ^ length bs + be_uint bs"
  by (induction bs arbitrary: a) (simp_all add: algebra_simps)

lemma SetBytes_be_uint: "SetBytes bs = be_uint bs"
  by (simp add: SetBytes_def foldl_be_uint)

lemma digit_value_digit: "d < 10 \<Longrightarrow> digit_value (digit d) = d"
proof -
  assume "d < 10"
  then consider "d = 0" | "d = 1" | "d = 2" | "d = 3" | "d = 4" | "d = 5" | "d = 6" | "d = 7"
    | "d = 8" | "d = 9" by atomize_elim arith
  then show ?thesis
    by cases (simp_all add: digit_def digit_value_def)
qed

lemma digit_decimal: "d < 10 \<Longrightarrow> digit d \<in> set ''0123456789''"
proof -
  assume "d < 10"
  then consider "d = 0" | "d = 1" | "d = 2" | "d = 3" | "d = 4" | "d = 5" | "d = 6" | "d = 7"
    | "d = 8" | "d = 9" by atomize_elim arith
  then show ?thesis
    by cases (simp_all add: digit_def)
qed

lemma decimal_value_snoc: "decimal_value (s @ [c]) = decimal_value s * 10 + digit_value c"
  by (simp add: decimal_value_def)

lemma decimal_value_String_of: "decimal_value (String_of n) = n"
proof (induction n rule: String_of.induct)
  case (1 n)
  show ?case
  proof (cases "n < 10")
    case True
    then show ?thesis
      by (subst String_of.simps) (simp add: decimal_value_def digit_value_digit)
  next
    case False
    have "decimal_value (String_of n) =
          decimal_value (String_of (n div 10)) * 10 + digit_value (digit (n mod 10))"
      using False by (subst String_of.simps) (simp add: decimal_value_snoc)
    also have "\<dots> = n div 10 * 10 + n mod 10"
      using "1.IH" [OF False] by (simp add: digit_value_digit)
    finally show ?thesis by simp
  qed
qed

lemma String_of_digits: "set (String_of n) \<subseteq> set ''0123456789''"
proof (induction n rule: String_of.induct)
  case (1 n)
  show ?case
  proof (cases "n < 10")
    case True
    then show ?thesis
      using digit_decimal [of n] by (subst String_of.simps) simp
  next
    case False
    then show ?thesis
      using "1.IH" [OF False] digit_decimal [of "n mod 10"]
      by (subst String_of.simps) simp
  qed
qed



text \<open>
  C8.  When \<^verbatim>\<open>processTransferEvent\<close> accepts a log and persists its record, the record
  is the one new row; its sender and recipient are the renderings of the low 20 bytes of
  the 32-byte topics 1 and 2, and its amount is the decimal string of the big-endian
  unsigned integer of the first 32 bytes of the data: the string is made of decimal
  digits and denotes that integer.
\<close>

theorem transfer_record_fields:
  assumes "processTransferEvent env config vLog w = (w', None)"
    and "length (lTopics vLog ! 1) = 32" and "length (lTopics vLog ! 2) = 32"
  shows "transactions w' = transactions w @ [last (transactions w')] \<and>
         FromAddress (last (transactions w')) = AddressHex env (low_bytes 20 (lTopics vLog ! 1)) \<and>
         ToAddress (last (transactions w')) = AddressHex env (low_bytes 20 (lTopics vLog ! 2)) \<and>
         Amount (last (transactions w')) = String_of (be_uint (take 32 (lData vLog))) \<and>
         decimal_value (Amount (last (transactions w'))) = be_uint (take 32 (lData vLog)) \<and>
         set (Amount (last (transactions w'))) \<subseteq> set ''0123456789''"
proof -
  have a: "BytesToAddress (lTopics vLog ! 1) = low_bytes 20 (lTopics vLog ! 1)"
    and b: "BytesToAddress (lTopics vLog ! 2) = low_bytes 20 (lTopics vLog ! 2)"
    using assms(2,3) by (simp_all add: BytesToAddress_low)
  have "transactions w' = transactions w @ [last (transactions w')] \<and>
         FromAddress (last (transactions w')) = AddressHex env (low_bytes 20 (lTopics vLog ! 1)) \<and>
         ToAddress (last (transactions w')) = AddressHex env (low_bytes 20 (lTopics vLog ! 2)) \<and>
         Amount (last (transactions w')) = String_of (be_uint (take 32 (lData vLog)))"
    using assms(1) a b
    by (auto simp: processTransferEvent_def db_Create_def Let_def SetBytes_be_uint
        split: if_splits sum.splits option.splits)
  then show ?thesis
    using decimal_value_String_of String_of_digits by simp
qed

theorem transfer_record_fields_witness:
  "FromAddress (last (transactions
     (fst (processTransferEvent quiet_env example_config transfer_log empty_world)))) =
     ''0x1111111111111111111111111111111111111111'' \<and>
   ToAddress (last (transactions
     (fst (processTransferEvent quiet_env example_config transfer_log empty_world)))) =
     ''0x2222222222222222222222222222222222222222'' \<and>
   Amount (last (transactions
     (fst (processTransferEvent quiet_env example_config transfer_log empty_world)))) = ''42'' \<and>
   be_uint (take 32 (lData transfer_log)) = 42"
proof -
  obtain w' where h: "processTransferEvent quiet_env example_config transfer_log empty_world = (w', None)"
    by (simp add: indexer_defs instance_defs String_of.simps replicate_numeral_Cons)
  have l1: "length (lTopics transfer_log ! 1) = 32" and l2: "length (lTopics transfer_log ! 2) = 32"
    by (simp_all add: instance_defs)
  have "be_uint (take 32 (lData transfer_log)) = 42"
    by (simp add: instance_defs replicate_numeral_Cons)
  then show ?thesis
    using transfer_record_fields [OF h l1 l2] h
    by (simp add: instance_defs indexer_defs low_bytes_def String_of.simps replicate_numeral_Cons)
qed

text \<open>
  C9, as the claim states it, fails: \<^verbatim>\<open>processTransferEvent\<close> never looks at the first
  topic.  A log of the right shape whose first topic is 32 zero bytes is decoded and its
  record persisted.
\<close>

theorem foreign_log_is_decoded:
  "hd (lTopics foreign_log) \<noteq> TransferEventSignature \<and>
   snd (processTransferEvent quiet_env example_config foreign_log empty_world) = None \<and>
   map FromAddress
     (transactions (fst (processTransferEvent quiet_env example_config foreign_log empty_world))) =
     [''0x1111111111111111111111111111111111111111'']"
  by (simp add: indexer_defs instance_defs TransferEventSignature_def String_of.simps
      replicate_numeral_Cons)

lemma processTransferEvent_FilterLogs_irrelevant:
  "processTransferEvent (env\<lparr>eth_FilterLogs := f\<rparr>) config vLog w =
   processTransferEvent env config vLog w"
  by (simp add: processTransferEvent_def db_Create_def Let_def split: sum.splits)

lemma process_logs_FilterLogs_irrelevant:
  "process_logs (env\<lparr>eth_FilterLogs := f\<rparr>) config logs w = process_logs env config logs w"
  by (induction logs arbitrary: w) (simp_all add: processTransferEvent_FilterLogs_irrelevant)

text \<open>
  C9, amended.  The Transfer signature is the topic filter of the query that
  \<^verbatim>\<open>processBlockRange\<close> sends to the chain node, and of every query it sends: a node that
  refuses any other query serves the indexer just as well.  The decoder itself does not
  test the first topic: its result is the same whatever that topic is.
\<close>

theorem signature_is_a_query_filter:
  "processTransferEvent env config (vLog\<lparr>lTopics := t # ts\<rparr>) w =
     processTransferEvent env config (vLog\<lparr>lTopics := TransferEventSignature # ts\<rparr>) w \<and>
   qTopics (transfer_query config fromBlock toBlock) = [[TransferEventSignature]] \<and>
   processBlockRange
     (env\<lparr>eth_FilterLogs :=
        (\<lambda>q. if qTopics q = [[TransferEventSignature]] then eth_FilterLogs env q
             else Inl (RPCError ''unexpected query''))\<rparr>)
     config fromBlock toBlock w =
   processBlockRange env config fromBlock toBlock w"
proof -
  have a: "processTransferEvent env config (vLog\<lparr>lTopics := t # ts\<rparr>) w =
     processTransferEvent env config (vLog\<lparr>lTopics := TransferEventSignature # ts\<rparr>) w"
    by (simp add: processTransferEvent_def Let_def nth_Cons' split: sum.splits)
  have b: "qTopics (transfer_query config fromBlock toBlock) = [[TransferEventSignature]]"
    by (simp add: transfer_query_def)
  have c: "processBlockRange
     (env\<lparr>eth_FilterLogs :=
        (\<lambda>q. if qTopics q = [[TransferEventSignature]] then eth_FilterLogs env q
             else Inl (RPCError ''unexpected query''))\<rparr>)
     config fromBlock toBlock w =
   processBlockRange env config fromBlock toBlock w"
    by (simp add: processBlockRange_def b process_logs_FilterLogs_irrelevant split: sum.splits)
  show ?thesis using a b c by blast
qed

section \<open>The Event Store\<close>

lemma db_Create_error_unchanged: "db_Create env tx w = (w', Some e) \<Longrightarrow> w' = w"
  by (auto simp: db_Create_def split: option.splits if_splits)

lemma processTransferEvent_error_unchanged:
  "processTransferEvent env config vLog w = (w', Some e) \<Longrightarrow> w' = w"
  by (auto simp: processTransferEvent_def Let_def split: if_splits sum.splits prod.splits option.splits
      dest: db_Create_error_unchanged)

lemma db_Create_duplicate:
  "TxHash tx \<in> set (map TxHash (transactions w)) \<Longrightarrow> \<exists>e. db_Create env tx w = (w, Some e)"
  by (simp add: db_Create_def split: option.splits)

lemma processTransferEvent_duplicate:
  assumes "HashHex (lTxHash vLog) \<in> set (map TxHash (transactions w))"
  shows "\<exists>e. processTransferEvent env config vLog w = (w, Some e)"
  using assms
  by (auto simp: processTransferEvent_def db_Create_def Let_def split: sum.splits option.splits)

lemma processTransferEvent_success:
  assumes "processTransferEvent env config vLog w = (w', None)"
  shows "w' = w\<lparr>transactions := transactions w @ [last (transactions w')]\<rparr> \<and>
         TxHash (last (transactions w')) = HashHex (lTxHash vLog)"
  using assms
  by (auto simp: processTransferEvent_def db_Create_def Let_def
      split: sum.splits option.splits if_splits)

lemma processTransferEvent_outcome:
  "(\<exists>e. processTransferEvent env config vLog w = (w, Some e)) \<or>
   (\<exists>tx. TxHash tx = HashHex (lTxHash vLog) \<and>
      processTransferEvent env config vLog w = (w\<lparr>transactions := transactions w @ [tx]\<rparr>, None))"
proof -
  obtain w' r where p: "processTransferEvent env config vLog w = (w', r)"
    by (cases "processTransferEvent env config vLog w")
  show ?thesis
  proof (cases r)
    case None
    then show ?thesis
      using p processTransferEvent_success [of env config vLog w w'] by metis
  next
    case (Some e)
    then show ?thesis
      using p processTransferEvent_error_unchanged [of env config vLog w w' e] by simp
  qed
qed

lemma processTransferEvent_stateless_failure:
  assumes "processTransferEvent env config vLog w = (w', Some e)"
    and "HashHex (lTxHash vLog) \<notin> set (map TxHash (transactions w))"
  shows "\<exists>e'. processTransferEvent env config vLog u = (u, Some e')"
  using assms
  by (auto simp: processTransferEvent_def db_Create_def Let_def split: sum.splits option.splits if_splits)

lemma process_logs_grows:
  "\<exists>new. transactions (process_logs env config logs w) = transactions w @ new"
proof (induction logs arbitrary: w)
  case Nil
  show ?case by simp
next
  case (Cons l logs)
  from processTransferEvent_outcome [of env config l w] show ?case
  proof
    assume "\<exists>e. processTransferEvent env config l w = (w, Some e)"
    then obtain e where e: "processTransferEvent env config l w = (w, Some e)" ..
    from Cons.IH [of "printf (ErrorProcessingTransferEvent e) w"] show ?thesis
      using e by (simp add: printf_def)
  next
    assume "\<exists>tx. TxHash tx = HashHex (lTxHash l) \<and>
      processTransferEvent env config l w = (w\<lparr>transactions := transactions w @ [tx]\<rparr>, None)"
    then obtain tx where
      t: "processTransferEvent env config l w = (w\<lparr>transactions := transactions w @ [tx]\<rparr>, None)"
      by blast
    from Cons.IH [of "w\<lparr>transactions := transactions w @ [tx]\<rparr>"] show ?thesis
      using t by auto
  qed
qed

lemma process_logs_all_known:
  assumes "\<forall>l\<in>set logs. HashHex (lTxHash l) \<in> set (map TxHash (transactions w)) \<or>
             (\<forall>u. \<exists>e. processTransferEvent env config l u = (u, Some e))"
  shows "transactions (process_logs env config logs w) = transactions w"
  using assms
proof (induction logs arbitrary: w)
  case Nil
  show ?case by simp
next
  case (Cons l logs)
  have "\<exists>e. processTransferEvent env config l w = (w, Some e)"
    using Cons.prems processTransferEvent_duplicate [of l w env config] by auto
  then obtain e where e: "processTransferEvent env config l w = (w, Some e)" ..
  have "transactions (process_logs env config logs (printf (ErrorProcessingTransferEvent e) w)) =
        transactions (printf (ErrorProcessingTransferEvent e) w)"
    by (rule Cons.IH) (use Cons.prems in \<open>simp add: printf_def\<close>)
  then show ?case using e by (simp add: printf_def)
qed

lemma process_logs_settles:
  "\<forall>l\<in>set logs.
      HashHex (lTxHash l) \<in> set (map TxHash (transactions (process_logs env config logs w))) \<or>
      (\<forall>u. \<exists>e. processTransferEvent env config l u = (u, Some e))"
proof (induction logs arbitrary: w)
  case Nil
  show ?case by simp
next
  case (Cons l logs)
  obtain w1 r where p: "processTransferEvent env config l w = (w1, r)"
    by (cases "processTransferEvent env config l w")
  define w2 where "w2 = (case r of None \<Rightarrow> w1 | Some e \<Rightarrow> printf (ErrorProcessingTransferEvent e) w1)"
  have step: "process_logs env config (l # logs) w = process_logs env config logs w2"
    using p by (simp add: w2_def split: option.splits)
  have t2: "transactions w2 = transactions w1"
    by (simp add: w2_def printf_def split: option.splits)
  obtain new where new: "transactions (process_logs env config logs w2) = transactions w2 @ new"
    using process_logs_grows by blast
  have head: "HashHex (lTxHash l) \<in> set (map TxHash (transactions (process_logs env config logs w2))) \<or>
      (\<forall>u. \<exists>e. processTransferEvent env config l u = (u, Some e))"
  proof (cases r)
    case None
    from processTransferEvent_outcome [of env config l w] p None
    obtain tx where "TxHash tx = HashHex (lTxHash l)" "w1 = w\<lparr>transactions := transactions w @ [tx]\<rparr>"
      by auto
    then show ?thesis using new t2 by auto
  next
    case (Some e)
    show ?thesis
    proof (cases "HashHex (lTxHash l) \<in> set (map TxHash (transactions w))")
      case True
      have "w1 = w" using p Some processTransferEvent_error_unchanged by blast
      then show ?thesis using True new t2 by auto
    next
      case False
      then show ?thesis
        using processTransferEvent_stateless_failure [of env config l w w1 e] p Some by blast
    qed
  qed
  show ?case
    unfolding step using head Cons.IH [of w2] by simp
qed

lemma process_logs_idempotent:
  "transactions (process_logs env config logs (process_logs env config logs w)) =
   transactions (process_logs env config logs w)"
  by (rule process_logs_all_known) (rule process_logs_settles)

lemma processBlockRange_idempotent:
  "transactions (fst (processBlockRange env config fromBlock toBlock
      (fst (processBlockRange env config fromBlock toBlock w)))) =
   transactions (fst (processBlockRange env config fromBlock toBlock w))"
proof (cases "eth_FilterLogs env (transfer_query config fromBlock toBlock)")
  case (Inl e)
  then show ?thesis by (simp add: processBlockRange_def)
next
  case (Inr logs)
  define l where "l = ProcessedEvents (length logs) (Name config) fromBlock toBlock"
  have "transactions (process_logs env config logs (printf l (process_logs env config logs w))) =
        transactions (process_logs env config logs (process_logs env config logs w))"
    by (rule process_logs_transactions_cong) (simp add: printf_def)
  then show ?thesis
    using Inr by (simp add: processBlockRange_def l_def [symmetric] printf_def process_logs_idempotent)
qed

text \<open>
  C3.  An insert whose \<^verbatim>\<open>TxHash\<close> is already stored is refused and leaves the store as
  it was, so the stored record stays.  Fetching, decoding and persisting a range whose
  logs all have their transaction hash in the store adds no record, and running
  \<^verbatim>\<open>processBlockRange\<close> a second time on the state the first run left adds none
  either.  The error of a duplicate is logged for that one log, and the logs after it are
  processed: the records persisted are those of the chunk without the duplicate.
\<close>

theorem duplicate_insert_never_overwrites:
  "(TxHash tx \<in> set (map TxHash (transactions w)) \<longrightarrow>
      (\<exists>e. db_Create env tx w = (w, Some e))) \<and>
   (eth_FilterLogs env (transfer_query config fromBlock toBlock) = Inr logs \<and>
    (\<forall>l\<in>set logs. HashHex (lTxHash l) \<in> set (map TxHash (transactions w))) \<longrightarrow>
      transactions (fst (processBlockRange env config fromBlock toBlock w)) = transactions w) \<and>
   transactions (fst (processBlockRange env config fromBlock toBlock
      (fst (processBlockRange env config fromBlock toBlock w)))) =
     transactions (fst (processBlockRange env config fromBlock toBlock w)) \<and>
   (HashHex (lTxHash vLog) \<in> set (map TxHash (transactions (process_logs env config pre w))) \<longrightarrow>
      (\<exists>e. process_logs env config (pre @ vLog # post) w =
            process_logs env config post
              (printf (ErrorProcessingTransferEvent e) (process_logs env config pre w))) \<and>
      transactions (process_logs env config (pre @ vLog # post) w) =
        transactions (process_logs env config (pre @ post) w))"
proof (intro conjI impI)
  assume "TxHash tx \<in> set (map TxHash (transactions w))"
  then show "\<exists>e. db_Create env tx w = (w, Some e)"
    by (rule db_Create_duplicate)
next
  assume a: "eth_FilterLogs env (transfer_query config fromBlock toBlock) = Inr logs \<and>
    (\<forall>l\<in>set logs. HashHex (lTxHash l) \<in> set (map TxHash (transactions w)))"
  then have "transactions (process_logs env config logs w) = transactions w"
    by (intro process_logs_all_known) blast
  then show "transactions (fst (processBlockRange env config fromBlock toBlock w)) = transactions w"
    using a by (simp add: processBlockRange_def printf_def)
next
  show "transactions (fst (processBlockRange env config fromBlock toBlock
      (fst (processBlockRange env config fromBlock toBlock w)))) =
     transactions (fst (processBlockRange env config fromBlock toBlock w))"
    by (rule processBlockRange_idempotent)
next
  assume d: "HashHex (lTxHash vLog) \<in> set (map TxHash (transactions (process_logs env config pre w)))"
  obtain e where e: "processTransferEvent env config vLog (process_logs env config pre w) =
      (process_logs env config pre w, Some e)"
    using processTransferEvent_duplicate [OF d] by blast
  then have s: "process_logs env config (pre @ vLog # post) w =
            process_logs env config post
              (printf (ErrorProcessingTransferEvent e) (process_logs env config pre w))"
    by (simp add: process_logs_append)
  then show "\<exists>e. process_logs env config (pre @ vLog # post) w =
            process_logs env config post
              (printf (ErrorProcessingTransferEvent e) (process_logs env config pre w))"
    by blast
  have "transactions (process_logs env config post
              (printf (ErrorProcessingTransferEvent e) (process_logs env config pre w))) =
        transactions (process_logs env config post (process_logs env config pre w))"
    by (rule process_logs_transactions_cong) (simp add: printf_def)
  then show "transactions (process_logs env config (pre @ vLog # post) w) =
        transactions (process_logs env config (pre @ post) w)"
    unfolding s by (simp only: process_logs_append)
qed

lemma indexed_world_eval:
  "indexed_world =
     \<lparr>transactions =
        [\<lparr>TxHash = ''0xabababababababababababababababababababababababababababababababab'',
          BlockNumber = 120, LogIndex = 0,
          ContractAddress = ''0xa0a0a0a0a0a0a0a0a0a0a0a0a0a0a0a0a0a0a0a0'',
          TokenName = ''USDC'',
          FromAddress = ''0x1111111111111111111111111111111111111111'',
          ToAddress = ''0x2222222222222222222222222222222222222222'',
          Amount = ''42'', BlockTimestamp = 1700000000\<rparr>],
      block_progress = Map.empty,
      log_output = [ProcessedEvents 1 ''USDC'' 101 150]\<rparr>"
  by (simp add: indexer_defs instance_defs String_of.simps replicate_numeral_Cons)

theorem duplicate_insert_never_overwrites_witness:
  "db_Create busy_env (hd (transactions indexed_world)) indexed_world =
     (indexed_world, Some (DBError ''UNIQUE constraint failed: transactions.tx_hash'')) \<and>
   transactions (fst (processBlockRange busy_env example_config 101 150 indexed_world)) =
     transactions indexed_world \<and>
   map Amount (transactions
     (process_logs busy_env example_config ([] @ transfer_log # [second_log]) indexed_world)) =
     [''42'', ''7'']"
proof -
  note t = duplicate_insert_never_overwrites
    [of "hd (transactions indexed_world)" indexed_world busy_env example_config 101 150
        "[transfer_log]" transfer_log "[]" "[second_log]"]
  have h1: "TxHash (hd (transactions indexed_world)) \<in> set (map TxHash (transactions indexed_world))"
    by (simp add: indexed_world_eval)
  have h2: "eth_FilterLogs busy_env (transfer_query example_config 101 150) = Inr [transfer_log] \<and>
    (\<forall>l\<in>set [transfer_log]. HashHex (lTxHash l) \<in> set (map TxHash (transactions indexed_world)))"
    by (simp add: indexed_world_eval) (simp add: indexer_defs instance_defs replicate_numeral_Cons)
  have h4: "HashHex (lTxHash transfer_log) \<in>
      set (map TxHash (transactions (process_logs busy_env example_config [] indexed_world)))"
    using h2 by simp
  from t h1 obtain e where c1: "db_Create busy_env (hd (transactions indexed_world)) indexed_world =
      (indexed_world, Some e)"
    by blast
  have e1: "snd (db_Create busy_env (hd (transactions indexed_world)) indexed_world) =
      Some (DBError ''UNIQUE constraint failed: transactions.tx_hash'')"
    by (simp add: indexed_world_eval) (simp add: indexer_defs instance_defs)
  have r1: "db_Create busy_env (hd (transactions indexed_world)) indexed_world =
     (indexed_world, Some (DBError ''UNIQUE constraint failed: transactions.tx_hash''))"
    using c1 e1 by simp
  from t h2 have r2: "transactions (fst (processBlockRange busy_env example_config 101 150 indexed_world)) =
     transactions indexed_world"
    by blast
  from t h4 have c3: "transactions
       (process_logs busy_env example_config ([] @ transfer_log # [second_log]) indexed_world) =
     transactions (process_logs busy_env example_config ([] @ [second_log]) indexed_world)"
    by blast
  have e3: "map Amount (transactions
       (process_logs busy_env example_config ([] @ [second_log]) indexed_world)) = [''42'', ''7'']"
    by (simp add: indexed_world_eval) (simp add: indexer_defs instance_defs String_of.simps replicate_numeral_Cons)
  show ?thesis
    by (simp only: r1 r2 c3 e3 simp_thms)
qed

section \<open>Failed inserts\<close>




section \<open>The batch loop\<close>

declare batch_loop.simps(2) [simp del]

lemma div_add_self_Suc: "0 < (b::nat) \<Longrightarrow> (d + b) div b = Suc (d div b)"
  using div_add_self2 [of b d] by simp


lemma step_arith:
  fixes fromBlock currentBlock batchSize :: u64
  assumes "fromBlock \<le> currentBlock"
    and "unat currentBlock + unat batchSize < 2 ^ 64"
    and "1 \<le> unat fromBlock + unat batchSize"
  shows "unat (fromBlock + batchSize) = unat fromBlock + unat batchSize"
    and "unat (chunk_end batchSize currentBlock fromBlock) =
         min (unat fromBlock + unat batchSize - 1) (unat currentBlock)"
proof -
  have le: "unat fromBlock \<le> unat currentBlock"
    using assms(1) by (simp add: word_le_nat_alt)
  then have "unat fromBlock + unat batchSize < 2 ^ LENGTH(64)"
    using assms(2) by simp
  then show a: "unat (fromBlock + batchSize) = unat fromBlock + unat batchSize"
    by (simp only: unat_add_lem)
  have "unat (fromBlock + batchSize) \<noteq> 0"
    using a assms(3) by arith
  then have "fromBlock + batchSize \<noteq> 0"
    by (simp add: unat_eq_zero)
  then have b: "unat (fromBlock + batchSize - 1) = unat fromBlock + unat batchSize - 1"
    using a by (simp add: unat_minus_one)
  show "unat (chunk_end batchSize currentBlock fromBlock) =
         min (unat fromBlock + unat batchSize - 1) (unat currentBlock)"
    using b by (simp add: chunk_end_def word_less_nat_alt min_def)
qed

lemma batch_loop_exit:
  "\<not> fromBlock \<le> currentBlock \<Longrightarrow>
   batch_loop (Suc n) env config batchSize currentBlock fromBlock w = (w, Some None)"
  by (simp add: batch_loop.simps(2))

lemma batch_loop_step_error:
  assumes "fromBlock \<le> currentBlock"
    and "processBlockRange env config fromBlock (chunk_end batchSize currentBlock fromBlock) w =
           (w', Some err)"
  shows "batch_loop (Suc n) env config batchSize currentBlock fromBlock w =
           (w', Some (Some (FailedToProcessBlocks fromBlock
              (chunk_end batchSize currentBlock fromBlock) err)))"
  using assms unfolding batch_loop.simps(2) Let_def chunk_end_def by simp

lemma batch_loop_step_ok:
  assumes "fromBlock \<le> currentBlock"
    and "processBlockRange env config fromBlock (chunk_end batchSize currentBlock fromBlock) w =
           (w', None)"
  shows "batch_loop (Suc n) env config batchSize currentBlock fromBlock w =
           batch_loop n env config batchSize currentBlock (fromBlock + batchSize)
             (updateLastProcessedBlock env (Address config)
                (chunk_end batchSize currentBlock fromBlock) w')"
  using assms unfolding batch_loop.simps(2) Let_def chunk_end_def by simp

lemma processBlockRange_block_progress:
  "block_progress (fst (processBlockRange env config fromBlock toBlock w)) = block_progress w"
  by (simp add: processBlockRange_def printf_def process_logs_block_progress split: sum.splits)

lemma processBlockRange_error_unchanged:
  "processBlockRange env config fromBlock toBlock w = (w', Some e) \<Longrightarrow> w' = w"
  by (auto simp: processBlockRange_def split: sum.splits)

lemma batch_loop_returns:
  assumes "1 \<le> unat batchSize" and "unat currentBlock + unat batchSize < 2 ^ 64"
    and "(unat currentBlock + unat batchSize - unat fromBlock) div unat batchSize < n"
  shows "snd (batch_loop n env config batchSize currentBlock fromBlock w) \<noteq> None"
  using assms(3)
proof (induction n arbitrary: fromBlock w)
  case 0
  then show ?case by simp
next
  case (Suc n)
  show ?case
  proof (cases "fromBlock \<le> currentBlock")
    case False
    then show ?thesis by (simp add: batch_loop_exit)
  next
    case True
    obtain w' r where p: "processBlockRange env config fromBlock
        (chunk_end batchSize currentBlock fromBlock) w = (w', r)"
      by (cases "processBlockRange env config fromBlock (chunk_end batchSize currentBlock fromBlock) w")
    show ?thesis
    proof (cases r)
      case (Some e)
      then show ?thesis using batch_loop_step_error [OF True] p by simp
    next
      case None
      have "unat fromBlock \<le> unat currentBlock"
        using True by (simp add: word_le_nat_alt)
      then obtain d where d: "unat currentBlock = unat fromBlock + d"
        using le_Suc_ex by blast
      have pos: "1 \<le> unat fromBlock + unat batchSize"
        using assms(1) by arith
      have u: "unat (fromBlock + batchSize) = unat fromBlock + unat batchSize"
        by (rule step_arith(1) [OF True assms(2) pos])
      have "0 < unat batchSize"
        using assms(1) by arith
      then have "(d + unat batchSize) div unat batchSize = Suc (d div unat batchSize)"
        by (rule div_add_self_Suc)
      moreover have "unat currentBlock + unat batchSize - unat fromBlock = d + unat batchSize"
        unfolding d by arith
      moreover have "unat currentBlock + unat batchSize - unat (fromBlock + batchSize) = d"
        unfolding d u by arith
      ultimately have "(unat currentBlock + unat batchSize - unat (fromBlock + batchSize)) div unat batchSize < n"
        using Suc.prems by (simp only: Suc_less_eq)
      from Suc.IH [OF this] show ?thesis
        using batch_loop_step_ok [OF True] p None by simp
    qed
  qed
qed

lemma batch_loop_zero_runs:
  assumes "\<forall>q. \<exists>logs. eth_FilterLogs env q = Inr logs" and "fromBlock \<le> currentBlock"
  shows "snd (batch_loop n env config 0 currentBlock fromBlock w) = None"
proof (induction n arbitrary: w)
  case 0
  show ?case by simp
next
  case (Suc n)
  obtain logs where "eth_FilterLogs env (transfer_query config fromBlock
      (chunk_end 0 currentBlock fromBlock)) = Inr logs"
    using assms(1) by blast
  then obtain w' where p: "processBlockRange env config fromBlock
      (chunk_end 0 currentBlock fromBlock) w = (w', None)"
    by (simp add: processBlockRange_def)
  show ?case
    using batch_loop_step_ok [OF assms(2) p, of n] Suc.IH by simp
qed

lemma unat_word_of_int_batch:
  assumes "0 \<le> bs" and "bs < 2 ^ 64"
  shows "unat (word_of_int bs :: u64) = nat bs"
  using assms by (simp add: unsigned_of_int take_bit_int_eq_self)

text \<open>
  C10, as the claim states it, fails at the top of the range of \<^verbatim>\<open>uint64\<close>.  With a
  stored checkpoint of \<open>2\<^sup>6\<^sup>4 - 2\<close>, the chain at \<open>2\<^sup>6\<^sup>4 - 1\<close> and a batch size of 1 the
  tick runs the batch loop from \<open>2\<^sup>6\<^sup>4 - 1\<close> and the bound is one iteration, but
  \<^verbatim>\<open>fromBlock += batchSize\<close> wraps to 0, the loop condition holds again, and the loop
  has not returned after three tests of it.
\<close>

theorem batch_loop_wraps_at_max_height:
  "getLastProcessedBlock edge_env (Address example_config) edge_world = 18446744073709551614 \<and>
   StartBlock example_config \<le> 18446744073709551614 \<and>
   eth_BlockNumber edge_env = Inr 18446744073709551615 \<and>
   batch_size edge_env = 1 \<and>
   (unat (18446744073709551615 :: u64) - unat (18446744073709551614 :: u64) + nat 1 - 1) div nat 1 = 1 \<and>
   processContractEvents (Suc (Suc (Suc 0))) edge_env example_config edge_world =
     batch_loop (Suc (Suc (Suc 0))) edge_env example_config (word_of_int 1)
       18446744073709551615 (18446744073709551614 + 1) edge_world \<and>
   snd (batch_loop (Suc (Suc (Suc 0))) edge_env example_config (word_of_int 1)
          18446744073709551615 (18446744073709551614 + 1) edge_world) = None"
  by (simp add: indexer_defs instance_defs batch_loop.simps(2))

text \<open>
  C10, amended.  For \<open>lastBlock < currentBlock\<close>, a configured batch size of at least 1
  and \<open>currentBlock + batchSize < 2\<^sup>6\<^sup>4\<close>, the batch loop started at \<open>lastBlock + 1\<close>
  returns within \<open>\<lceil>(currentBlock - lastBlock) / batchSize\<rceil>\<close> iterations, whatever the
  chain node and the store answer.  The batch size is a real precondition: with a batch
  size of 0 and a node that answers every query, the loop never returns.
\<close>

theorem batch_loop_terminates:
  assumes "lastBlock < currentBlock"
  shows "(1 \<le> bs \<and> int (unat currentBlock) + bs < 2 ^ 64 \<longrightarrow>
           snd (batch_loop (Suc ((unat currentBlock - unat lastBlock + nat bs - 1) div nat bs))
                  env config (word_of_int bs) currentBlock (lastBlock + 1) w) \<noteq> None) \<and>
         ((\<forall>q. \<exists>logs. eth_FilterLogs env q = Inr logs) \<longrightarrow>
           snd (batch_loop n env config (word_of_int 0) currentBlock (lastBlock + 1) w) = None)"
proof (intro conjI impI)
  have lt: "unat lastBlock < unat currentBlock"
    using assms by (simp add: word_less_nat_alt)
  have "unat lastBlock + 1 < 2 ^ LENGTH(64)"
    using lt unsigned_less [of currentBlock, where 'a = nat] by simp
  then have u1: "unat (lastBlock + 1) = unat lastBlock + 1"
    using unat_add_lem [of lastBlock 1] by simp
  then have le: "lastBlock + 1 \<le> currentBlock"
    using lt by (simp add: word_le_nat_alt)
  {
    assume h: "1 \<le> bs \<and> int (unat currentBlock) + bs < 2 ^ 64"
    then have h1: "1 \<le> bs" and h2: "int (unat currentBlock) + bs < 2 ^ 64"
      by blast+
    have "0 \<le> int (unat currentBlock)"
      by simp
    with h1 h2 have "0 \<le> bs" and "bs < 2 ^ 64"
      by linarith+
    then have ub: "unat (word_of_int bs :: u64) = nat bs"
      by (rule unat_word_of_int_batch)
    have "1 \<le> nat bs"
      using h1 by linarith
    then have b1: "1 \<le> unat (word_of_int bs :: u64)"
      unfolding ub .
    have "int (unat currentBlock + nat bs) = int (unat currentBlock) + bs"
      using h1 by simp
    then have "int (unat currentBlock + nat bs) < int (2 ^ 64)"
      using h2 by simp
    then have "unat currentBlock + nat bs < 2 ^ 64"
      by (simp only: of_nat_less_iff)
    then have nw: "unat currentBlock + unat (word_of_int bs :: u64) < 2 ^ 64"
      unfolding ub .
    have "(unat currentBlock + nat bs - unat (lastBlock + 1)) =
          (unat currentBlock - unat lastBlock + nat bs - 1)"
      using lt u1 by arith
    then have "(unat currentBlock + unat (word_of_int bs :: u64) - unat (lastBlock + 1))
                 div unat (word_of_int bs :: u64)
               < Suc ((unat currentBlock - unat lastBlock + nat bs - 1) div nat bs)"
      using ub by simp
    from batch_loop_returns [OF b1 nw this]
    show "snd (batch_loop (Suc ((unat currentBlock - unat lastBlock + nat bs - 1) div nat bs))
                  env config (word_of_int bs) currentBlock (lastBlock + 1) w) \<noteq> None" .
  }
  {
    assume "\<forall>q. \<exists>logs. eth_FilterLogs env q = Inr logs"
    from batch_loop_zero_runs [OF this le]
    show "snd (batch_loop n env config (word_of_int 0) currentBlock (lastBlock + 1) w) = None"
      by simp
  }
qed

theorem batch_loop_terminates_witness:
  "(100 :: u64) < 250 \<and>
   snd (batch_loop (Suc 3) quiet_env example_config (word_of_int 50) 250 (100 + 1) empty_world) \<noteq> None \<and>
   snd (batch_loop 7 zero_batch_env example_config (word_of_int 0) 250 (100 + 1) empty_world) = None"
proof -
  have h: "(100 :: u64) < 250" by simp
  note t = batch_loop_terminates [OF h, where bs = 50 and env = quiet_env and config = example_config
      and w = empty_world]
  note t' = batch_loop_terminates [OF h, where env = zero_batch_env and config = example_config
      and w = empty_world and n = 7]
  have h1: "(1::int) \<le> 50 \<and> int (unat (250 :: u64)) + 50 < 2 ^ 64" by simp
  have h2: "\<forall>q. \<exists>logs. eth_FilterLogs zero_batch_env q = Inr logs"
    by (simp add: instance_defs)
  have e: "(unat (250 :: u64) - unat (100 :: u64) + nat 50 - 1) div nat 50 = 3" by simp
  from t h1 have r1: "snd (batch_loop (Suc 3) quiet_env example_config (word_of_int 50) 250 (100 + 1) empty_world) \<noteq> None"
    unfolding e by blast
  from t' h2 have r2: "snd (batch_loop 7 zero_batch_env example_config (word_of_int 0) 250 (100 + 1) empty_world) = None"
    by blast
  show ?thesis using h r1 r2 by blast
qed

section \<open>Chunking\<close>

lemma processed_ranges_append:
  "processed_ranges (xs @ ys) = processed_ranges xs @ processed_ranges ys"
  by (induction xs rule: processed_ranges.induct) simp_all

lemma process_logs_processed_ranges:
  "processed_ranges (log_output (process_logs env config logs w)) = processed_ranges (log_output w)"
proof (induction logs arbitrary: w)
  case Nil
  show ?case by simp
next
  case (Cons l logs)
  obtain w' r where p: "processTransferEvent env config l w = (w', r)"
    by (cases "processTransferEvent env config l w")
  have lo: "log_output w' = log_output w"
    using processTransferEvent_log_output [of env config l w] p by simp
  show ?case
  proof (cases r)
    case None
    then show ?thesis using p lo Cons.IH [of w'] by simp
  next
    case (Some e)
    have "processed_ranges (log_output (printf (ErrorProcessingTransferEvent e) w')) =
          processed_ranges (log_output w)"
      by (simp add: printf_def lo processed_ranges_append)
    then show ?thesis using p Some Cons.IH [of "printf (ErrorProcessingTransferEvent e) w'"] by simp
  qed
qed

lemma processBlockRange_ok:
  assumes "eth_FilterLogs env (transfer_query config fromBlock toBlock) = Inr logs"
  shows "\<exists>w'. processBlockRange env config fromBlock toBlock w = (w', None) \<and>
           block_progress w' = block_progress w \<and>
           processed_ranges (log_output w') =
             processed_ranges (log_output w) @ [(unat fromBlock, unat toBlock)]"
  using assms
  by (simp add: processBlockRange_def printf_def process_logs_block_progress
      processed_ranges_append process_logs_processed_ranges)

lemma tiles_cover:
  "tiles M f t cs \<Longrightarrow> f \<le> t + 1 \<Longrightarrow> (\<Union>(a, b)\<in>set cs. {a..b}) = {f..t}"
proof (induction cs arbitrary: f)
  case Nil
  then show ?case by simp
next
  case (Cons c cs)
  obtain a b where c: "c = (a, b)" by (cases c)
  from Cons.prems c have ab: "a = f" "f \<le> b" "b \<le> t" and rest: "tiles M (b + 1) t cs"
    by simp_all
  have "(\<Union>(a, b)\<in>set cs. {a..b}) = {b + 1..t}"
    using Cons.IH [OF rest] ab by simp
  then show ?case
    using c ab by auto
qed

lemma batch_loop_trace:
  assumes b1: "1 \<le> unat batchSize"
    and nw: "unat currentBlock + unat batchSize < 2 ^ 64"
    and ok: "\<forall>q. \<exists>logs. eth_FilterLogs env q = Inr logs"
  shows "unat fromBlock \<le> unat currentBlock + 1 \<Longrightarrow>
         (unat currentBlock + unat batchSize - unat fromBlock) div unat batchSize < n \<Longrightarrow>
         \<exists>w' cs. batch_loop n env config batchSize currentBlock fromBlock w = (w', Some None) \<and>
           processed_ranges (log_output w') = processed_ranges (log_output w) @ cs \<and>
           length cs = (unat currentBlock + unat batchSize - unat fromBlock) div unat batchSize \<and>
           tiles (unat batchSize) (unat fromBlock) (unat currentBlock) cs"
proof (induction n arbitrary: fromBlock w)
  case 0
  then show ?case by simp
next
  case (Suc n)
  let ?B = "unat batchSize" and ?c = "unat currentBlock" and ?f = "unat fromBlock"
  have Bpos: "0 < ?B" using b1 by arith
  show ?case
  proof (cases "fromBlock \<le> currentBlock")
    case False
    then have "?c < ?f" by (simp add: word_le_nat_alt)
    with Suc.prems(1) have f: "?f = ?c + 1" by arith
    have "?c + ?B - ?f = ?B - 1" unfolding f by arith
    moreover have "(?B - 1) div ?B = 0" using Bpos by simp
    ultimately have k: "(?c + ?B - ?f) div ?B = 0" by simp
    show ?thesis
      using batch_loop_exit [OF False] k f by simp
  next
    case True
    then have le: "?f \<le> ?c" by (simp add: word_le_nat_alt)
    then obtain d where d: "?c = ?f + d" using le_Suc_ex by blast
    let ?to = "chunk_end batchSize currentBlock fromBlock"
    have pos: "1 \<le> ?f + ?B" using b1 by arith
    have u: "unat (fromBlock + batchSize) = ?f + ?B"
      by (rule step_arith(1) [OF True nw pos])
    have t: "unat ?to = min (?f + ?B - 1) ?c"
      by (rule step_arith(2) [OF True nw pos])
    obtain logs where "eth_FilterLogs env (transfer_query config fromBlock ?to) = Inr logs"
      using ok by blast
    from processBlockRange_ok [OF this, of w]
    obtain w1 where p: "processBlockRange env config fromBlock ?to w = (w1, None)"
      and bp1: "block_progress w1 = block_progress w"
      and pr1: "processed_ranges (log_output w1) =
                  processed_ranges (log_output w) @ [(?f, unat ?to)]"
      by blast
    define w2 where "w2 = updateLastProcessedBlock env (Address config) ?to w1"
    have step: "batch_loop (Suc n) env config batchSize currentBlock fromBlock w =
                batch_loop n env config batchSize currentBlock (fromBlock + batchSize) w2"
      unfolding w2_def by (rule batch_loop_step_ok [OF True p])
    have pr2: "processed_ranges (log_output w2) =
                  processed_ranges (log_output w) @ [(?f, unat ?to)]"
      by (simp add: w2_def updateLastProcessedBlock_def pr1 split: option.splits)
    have kS: "(?c + ?B - ?f) div ?B = Suc (d div ?B)"
    proof -
      have "?c + ?B - ?f = d + ?B" unfolding d by arith
      then show ?thesis using div_add_self_Suc [OF Bpos, of d] by simp
    qed
    have kn: "d div ?B < n" using Suc.prems(2) kS by simp
    show ?thesis
    proof (cases "?f + ?B \<le> ?c + 1")
      case True
      then have to: "unat ?to = ?f + ?B - 1" using t by arith
      have rest: "?c + ?B - unat (fromBlock + batchSize) = d"
        unfolding u d by arith
      have h1: "unat (fromBlock + batchSize) \<le> ?c + 1" using True u by simp
      have h2: "(?c + ?B - unat (fromBlock + batchSize)) div ?B < n"
        using kn rest by simp
      from Suc.IH [OF h1 h2, of w2]
      obtain w' cs where
        r: "batch_loop n env config batchSize currentBlock (fromBlock + batchSize) w2 = (w', Some None)"
        and prs: "processed_ranges (log_output w') = processed_ranges (log_output w2) @ cs"
        and len: "length cs = (?c + ?B - unat (fromBlock + batchSize)) div ?B"
        and til: "tiles ?B (unat (fromBlock + batchSize)) ?c cs"
        by blast
      have a1: "?f \<le> ?f + ?B - 1" using b1 by arith
      have a2: "?f + ?B - 1 \<le> ?c" using True by arith
      have a3: "?f + ?B - 1 - ?f + 1 \<le> ?B" using b1 by arith
      have a4: "?f + ?B - 1 + 1 = ?f + ?B" using b1 by arith
      have til': "tiles ?B ?f ?c ((?f, unat ?to) # cs)"
        using til unfolding u to tiles.simps a4 using a1 a2 a3 by blast
      show ?thesis
        unfolding step
        using r prs pr2 len rest kS til' by simp
    next
      case False
      then have to: "unat ?to = ?c" using t by arith
      have "?c < unat (fromBlock + batchSize)" using False u by simp
      then have ex: "\<not> fromBlock + batchSize \<le> currentBlock" by (simp add: word_le_nat_alt)
      have dB: "d < ?B" using False d by arith
      then have k1: "(?c + ?B - ?f) div ?B = 1" using kS by simp
      obtain m where m: "n = Suc m" using kn by (cases n) simp_all
      have r: "batch_loop n env config batchSize currentBlock (fromBlock + batchSize) w2 = (w2, Some None)"
        unfolding m by (rule batch_loop_exit [OF ex])
      have a5: "?c - ?f + 1 \<le> ?B" using False le by arith
      have til': "tiles ?B ?f ?c [(?f, ?c)]"
        unfolding tiles.simps using le a5 by simp
      show ?thesis
        unfolding step
        using r pr2 to k1 til' by simp
    qed
  qed
qed


text \<open>
  C5, as the claim states it, fails at the top of the range of \<^verbatim>\<open>uint64\<close>.  For the
  one-block range \<open>[2\<^sup>6\<^sup>4 - 1, 2\<^sup>6\<^sup>4 - 1]\<close> and a width of 1, which a tick reaches from a
  stored checkpoint of \<open>2\<^sup>6\<^sup>4 - 2\<close>, the claim promises the one chunk that is the range;
  the loop processes it, wraps around, processes \<open>[0, 0]\<close>, and is still running.
\<close>

theorem unbounded_height_breaks_chunking:
  "(18446744073709551615 :: u64) \<le> 18446744073709551615 \<and> 1 \<le> unat (1 :: u64) \<and>
   processContractEvents (Suc (Suc 0)) edge_env example_config edge_world =
     batch_loop (Suc (Suc 0)) edge_env example_config 1
       18446744073709551615 18446744073709551615 edge_world \<and>
   snd (batch_loop (Suc (Suc 0)) edge_env example_config 1
          18446744073709551615 18446744073709551615 edge_world) = None \<and>
   processed_ranges (log_output (fst (batch_loop (Suc (Suc 0)) edge_env example_config 1
          18446744073709551615 18446744073709551615 edge_world))) =
     [(18446744073709551615, 18446744073709551615), (0, 0)]"
  by (simp add: indexer_defs instance_defs batch_loop.simps(2))

text \<open>
  C5, amended.  For a range \<open>[from, to]\<close> with \<open>from \<le> to\<close>, a width \<open>M \<ge> 1\<close> and
  \<open>to + M < 2\<^sup>6\<^sup>4\<close>, and a chain node that answers every query, the batch loop returns
  after processing \<open>\<lceil>(to - from + 1) / M\<rceil>\<close> chunks, in this order: the first starts at
  \<open>from\<close>, each next one starts one block after the end of the one before, the last ends
  at \<open>to\<close>, none is wider than \<open>M\<close>, and together they are exactly \<open>[from, to]\<close>.
\<close>

theorem chunks_tile_the_range:
  assumes "fromBlock \<le> toBlock" and "1 \<le> unat M" and "unat toBlock + unat M < 2 ^ 64"
    and "\<forall>q. \<exists>logs. eth_FilterLogs env q = Inr logs"
    and "(unat toBlock - unat fromBlock + 1 + unat M - 1) div unat M < n"
  shows "\<exists>w' cs. batch_loop n env config M toBlock fromBlock w = (w', Some None) \<and>
           processed_ranges (log_output w') = processed_ranges (log_output w) @ cs \<and>
           length cs = (unat toBlock - unat fromBlock + 1 + unat M - 1) div unat M \<and>
           tiles (unat M) (unat fromBlock) (unat toBlock) cs \<and>
           (\<Union>(a, b)\<in>set cs. {a..b}) = {unat fromBlock..unat toBlock}"
proof -
  have le: "unat fromBlock \<le> unat toBlock"
    using assms(1) by (simp add: word_le_nat_alt)
  then have k: "unat toBlock - unat fromBlock + 1 + unat M - 1 = unat toBlock + unat M - unat fromBlock"
    by arith
  have h1: "unat fromBlock \<le> unat toBlock + 1"
    using le by arith
  have h2: "(unat toBlock + unat M - unat fromBlock) div unat M < n"
    using assms(5) unfolding k .
  from batch_loop_trace [OF assms(2,3,4) h1 h2, of config w]
  obtain w' cs where r: "batch_loop n env config M toBlock fromBlock w = (w', Some None)"
    and pr: "processed_ranges (log_output w') = processed_ranges (log_output w) @ cs"
    and len: "length cs = (unat toBlock + unat M - unat fromBlock) div unat M"
    and til: "tiles (unat M) (unat fromBlock) (unat toBlock) cs"
    by blast
  have "(\<Union>(a, b)\<in>set cs. {a..b}) = {unat fromBlock..unat toBlock}"
    by (rule tiles_cover [OF til h1])
  then show ?thesis
    using r pr len til unfolding k by blast
qed

theorem chunks_tile_the_range_witness:
  "snd (batch_loop 5 quiet_env example_config 50 250 100 empty_world) = Some None \<and>
   length (processed_ranges (log_output (fst (batch_loop 5 quiet_env example_config 50 250 100 empty_world)))) = 4 \<and>
   tiles 50 100 250
     (processed_ranges (log_output (fst (batch_loop 5 quiet_env example_config 50 250 100 empty_world))))"
proof -
  have h1: "(100 :: u64) \<le> 250" by simp
  have h2: "1 \<le> unat (50 :: u64)" by simp
  have h3: "unat (250 :: u64) + unat (50 :: u64) < 2 ^ 64" by simp
  have h4: "\<forall>q. \<exists>logs. eth_FilterLogs quiet_env q = Inr logs" by (simp add: instance_defs)
  have h5: "(unat (250 :: u64) - unat (100 :: u64) + 1 + unat (50 :: u64) - 1) div unat (50 :: u64) < 5"
    by simp
  from chunks_tile_the_range [OF h1 h2 h3 h4 h5, of example_config empty_world]
  obtain w' cs where r: "batch_loop 5 quiet_env example_config 50 250 100 empty_world = (w', Some None)"
    and pr: "processed_ranges (log_output w') = processed_ranges (log_output empty_world) @ cs"
    and len: "length cs = (unat (250 :: u64) - unat (100 :: u64) + 1 + unat (50 :: u64) - 1) div unat (50 :: u64)"
    and til: "tiles (unat (50 :: u64)) (unat (100 :: u64)) (unat (250 :: u64)) cs"
    by blast
  have cs: "processed_ranges (log_output w') = cs"
    using pr by (simp add: empty_world_def)
  show ?thesis
    using len til by (simp add: r cs)
qed

text \<open>
  C1: the code does not do what the claim says.  With no stored checkpoint, a start
  height of 100, the chain at 250 and a batch size of 50, \<^verbatim>\<open>processContractEvents\<close>
  sets \<^verbatim>\<open>lastBlock\<close> to the start height and begins at \<^verbatim>\<open>lastBlock + 1\<close>: the chunks
  are \<open>[101, 150]\<close>, \<open>[151, 200]\<close> and \<open>[201, 250]\<close> and block 100 is never fetched.  The
  checkpoint after the tick is 150, the end of the first chunk: the progress table takes
  the first write for the contract and refuses the two that follow.
\<close>

theorem start_block_is_skipped:
  "snd (processContractEvents (Suc (Suc (Suc (Suc 0)))) quiet_env example_config empty_world) = Some None \<and>
   processed_ranges (log_output
     (fst (processContractEvents (Suc (Suc (Suc (Suc 0)))) quiet_env example_config empty_world))) =
     [(101, 150), (151, 200), (201, 250)] \<and>
   checkpoint quiet_env example_config
     (fst (processContractEvents (Suc (Suc (Suc (Suc 0)))) quiet_env example_config empty_world)) = Some 150"
  by (simp add: indexer_defs instance_defs batch_loop.simps(2))

section \<open>The checkpoint\<close>

lemma checkpoint_le_refl: "checkpoint_le c c"
  by (cases c) simp_all

lemma checkpoint_le_keeps: "(\<And>c. a = Some c \<Longrightarrow> b = Some c) \<Longrightarrow> checkpoint_le a b"
  by (cases a) simp_all

lemma updateLastProcessedBlock_keeps:
  "block_progress w k = Some c \<Longrightarrow>
   block_progress (updateLastProcessedBlock env address b w) k = Some c"
  by (auto simp: updateLastProcessedBlock_def split: option.splits)

lemma updateLastProcessedBlock_transactions:
  "transactions (updateLastProcessedBlock env address b w) = transactions w"
  by (simp add: updateLastProcessedBlock_def split: option.splits)

lemma updateLastProcessedBlock_log_output:
  "log_output (updateLastProcessedBlock env address b w) = log_output w"
  by (simp add: updateLastProcessedBlock_def split: option.splits)

lemma batch_loop_keeps:
  "block_progress w k = Some c \<Longrightarrow>
   block_progress (fst (batch_loop n env config batchSize currentBlock fromBlock w)) k = Some c"
proof (induction n arbitrary: fromBlock w)
  case 0
  then show ?case by simp
next
  case (Suc n)
  show ?case
  proof (cases "fromBlock \<le> currentBlock")
    case False
    then show ?thesis using Suc.prems by (simp add: batch_loop_exit)
  next
    case True
    let ?to = "chunk_end batchSize currentBlock fromBlock"
    obtain w1 r where p: "processBlockRange env config fromBlock ?to w = (w1, r)"
      by (cases "processBlockRange env config fromBlock ?to w")
    have b1: "block_progress w1 = block_progress w"
      using processBlockRange_block_progress [of env config fromBlock ?to w] p by simp
    show ?thesis
    proof (cases r)
      case (Some e)
      then show ?thesis
        using batch_loop_step_error [OF True, of env config batchSize w w1 e n] p b1 Suc.prems
        by simp
    next
      case None
      define w2 where "w2 = updateLastProcessedBlock env (Address config) ?to w1"
      have step: "batch_loop (Suc n) env config batchSize currentBlock fromBlock w =
                  batch_loop n env config batchSize currentBlock (fromBlock + batchSize) w2"
        unfolding w2_def using p None by (intro batch_loop_step_ok [OF True]) simp
      have "block_progress w2 k = Some c"
        unfolding w2_def using Suc.prems b1 by (intro updateLastProcessedBlock_keeps) simp
      then show ?thesis
        unfolding step by (rule Suc.IH)
    qed
  qed
qed

lemma batch_loop_mono:
  "n \<le> m \<Longrightarrow>
   checkpoint_le
     (block_progress (fst (batch_loop n env config batchSize currentBlock fromBlock w)) k)
     (block_progress (fst (batch_loop m env config batchSize currentBlock fromBlock w)) k)"
proof (induction n arbitrary: m fromBlock w)
  case 0
  show ?case
    by (rule checkpoint_le_keeps) (simp add: batch_loop_keeps)
next
  case (Suc n)
  from Suc.prems obtain m' where m: "m = Suc m'" and nm: "n \<le> m'"
    by (cases m) simp_all
  show ?case
  proof (cases "fromBlock \<le> currentBlock")
    case False
    then show ?thesis unfolding m by (simp add: batch_loop_exit checkpoint_le_refl)
  next
    case True
    let ?to = "chunk_end batchSize currentBlock fromBlock"
    obtain w1 r where p: "processBlockRange env config fromBlock ?to w = (w1, r)"
      by (cases "processBlockRange env config fromBlock ?to w")
    show ?thesis
    proof (cases r)
      case (Some e)
      show ?thesis
        unfolding m
        using batch_loop_step_error [OF True, of env config batchSize w w1 e] p Some
        by (simp add: checkpoint_le_refl)
    next
      case None
      define w2 where "w2 = updateLastProcessedBlock env (Address config) ?to w1"
      have step: "\<And>j. batch_loop (Suc j) env config batchSize currentBlock fromBlock w =
                  batch_loop j env config batchSize currentBlock (fromBlock + batchSize) w2"
        unfolding w2_def using p None by (intro batch_loop_step_ok [OF True]) simp
      show ?thesis
        unfolding m step using Suc.IH [OF nm] .
    qed
  qed
qed

lemma processContractEvents_zero: "fst (processContractEvents 0 env config w) = w"
  by (simp add: processContractEvents_def Let_def split: sum.splits)

lemma processContractEvents_unfold:
  assumes "eth_BlockNumber env = Inr currentBlock"
    and "lastBlock = (if getLastProcessedBlock env (Address config) w < StartBlock config
                      then StartBlock config else getLastProcessedBlock env (Address config) w)"
  shows "processContractEvents j env config w =
           (if lastBlock \<ge> currentBlock then (w, Some None)
            else batch_loop j env config (word_of_int (batch_size env)) currentBlock (lastBlock + 1) w)"
  using assms by (simp add: processContractEvents_def Let_def)

lemma tick_shape:
  obtains (height) e where
      "\<And>j. processContractEvents j env config w = (w, Some (Some (FailedToGetCurrentBlockNumber e)))"
  | (idle) "\<And>j. processContractEvents j env config w = (w, Some None)"
  | (run) currentBlock fromBlock where
      "\<And>j. processContractEvents j env config w =
         batch_loop j env config (word_of_int (batch_size env)) currentBlock fromBlock w"
proof (cases "eth_BlockNumber env")
  case (Inl e)
  then have "\<And>j. processContractEvents j env config w = (w, Some (Some (FailedToGetCurrentBlockNumber e)))"
    by (simp add: processContractEvents_def Let_def)
  then show ?thesis by (rule height)
next
  case (Inr currentBlock)
  define lastBlock where "lastBlock = (if getLastProcessedBlock env (Address config) w < StartBlock config
                      then StartBlock config else getLastProcessedBlock env (Address config) w)"
  have unf: "\<And>j. processContractEvents j env config w =
           (if lastBlock \<ge> currentBlock then (w, Some None)
            else batch_loop j env config (word_of_int (batch_size env)) currentBlock (lastBlock + 1) w)"
    by (rule processContractEvents_unfold [OF Inr lastBlock_def])
  show ?thesis
  proof (cases "lastBlock \<ge> currentBlock")
    case True
    then have "\<And>j. processContractEvents j env config w = (w, Some None)"
      by (simp add: unf)
    then show ?thesis by (rule idle)
  next
    case False
    then have "\<And>j. processContractEvents j env config w =
         batch_loop j env config (word_of_int (batch_size env)) currentBlock (lastBlock + 1) w"
      by (simp add: unf)
    then show ?thesis by (rule run)
  qed
qed

lemma tick_keeps:
  "block_progress w k = Some c \<Longrightarrow>
   block_progress (fst (processContractEvents n env config w)) k = Some c"
  by (cases rule: tick_shape [of env config w]) (simp_all add: batch_loop_keeps)

lemma tick_mono:
  "n \<le> m \<Longrightarrow>
   checkpoint_le (block_progress (fst (processContractEvents n env config w)) k)
     (block_progress (fst (processContractEvents m env config w)) k)"
  by (cases rule: tick_shape [of env config w]) (simp_all add: batch_loop_mono checkpoint_le_refl)

lemma monitor_keeps:
  "block_progress w k = Some c \<Longrightarrow>
   block_progress (fst (monitor_loop fuel config evs w)) k = Some c"
proof (induction evs arbitrary: w)
  case Nil
  then show ?case by simp
next
  case (Cons ev evs)
  show ?case
  proof (cases ev)
    case StopSignal
    then show ?thesis using Cons.prems by (simp add: printf_def)
  next
    case (Tick env)
    obtain w' r where p: "processContractEvents fuel env config w = (w', r)"
      by (cases "processContractEvents fuel env config w")
    have first: "block_progress w' k = Some c"
      using tick_keeps [OF Cons.prems, of fuel env config] p by simp
    show ?thesis
    proof (cases r)
      case None
      then show ?thesis using Tick p first by simp
    next
      case (Some r')
      show ?thesis
      proof (cases r')
        case None
        then show ?thesis
          using Tick p Some Cons.IH [OF first] by simp
      next
        case (Some err)
        have "block_progress (printf (ErrorProcessingEvents (Name config) err) w') k = Some c"
          using first by (simp add: printf_def)
        then show ?thesis
          using Tick p \<open>r = Some r'\<close> Some Cons.IH by simp
      qed
    qed
  qed
qed

lemma batch_loop_transactions_grow:
  "\<exists>new. transactions (fst (batch_loop n env config batchSize currentBlock fromBlock w)) =
     transactions w @ new"
proof (induction n arbitrary: fromBlock w)
  case 0
  show ?case by simp
next
  case (Suc n)
  show ?case
  proof (cases "fromBlock \<le> currentBlock")
    case False
    then show ?thesis by (simp add: batch_loop_exit)
  next
    case True
    let ?to = "chunk_end batchSize currentBlock fromBlock"
    obtain w1 r where p: "processBlockRange env config fromBlock ?to w = (w1, r)"
      by (cases "processBlockRange env config fromBlock ?to w")
    show ?thesis
    proof (cases r)
      case (Some e)
      have "w1 = w" using p Some processBlockRange_error_unchanged by blast
      then show ?thesis
        using batch_loop_step_error [OF True, of env config batchSize w w1 e n] p Some by simp
    next
      case None
      define w2 where "w2 = updateLastProcessedBlock env (Address config) ?to w1"
      have step: "batch_loop (Suc n) env config batchSize currentBlock fromBlock w =
                  batch_loop n env config batchSize currentBlock (fromBlock + batchSize) w2"
        unfolding w2_def using p None by (intro batch_loop_step_ok [OF True]) simp
      obtain logs where l: "eth_FilterLogs env (transfer_query config fromBlock ?to) = Inr logs"
        using p None by (auto simp: processBlockRange_def split: sum.splits)
      have "transactions w1 = transactions (process_logs env config logs w)"
        using p l by (auto simp: processBlockRange_def printf_def)
      then obtain new1 where "transactions w2 = transactions w @ new1"
        using process_logs_grows [of env config logs w]
        by (auto simp: w2_def updateLastProcessedBlock_transactions)
      moreover obtain new2 where
        "transactions (fst (batch_loop n env config batchSize currentBlock (fromBlock + batchSize) w2)) =
           transactions w2 @ new2"
        using Suc.IH by blast
      ultimately show ?thesis
        unfolding step by simp
    qed
  qed
qed

lemma process_logs_log_output_grows:
  "set (log_output w) \<subseteq> set (log_output (process_logs env config logs w))"
proof (induction logs arbitrary: w)
  case Nil
  show ?case by simp
next
  case (Cons l logs)
  obtain w' r where p: "processTransferEvent env config l w = (w', r)"
    by (cases "processTransferEvent env config l w")
  have lo: "log_output w' = log_output w"
    using processTransferEvent_log_output [of env config l w] p by simp
  show ?case
  proof (cases r)
    case None
    then show ?thesis using p lo Cons.IH [of w'] by simp
  next
    case (Some e)
    have "set (log_output w) \<subseteq> set (log_output (printf (ErrorProcessingTransferEvent e) w'))"
      by (auto simp: printf_def lo)
    then show ?thesis
      using p Some Cons.IH [of "printf (ErrorProcessingTransferEvent e) w'"] by auto
  qed
qed

lemma batch_loop_log_output_grows:
  "set (log_output w) \<subseteq>
   set (log_output (fst (batch_loop n env config batchSize currentBlock fromBlock w)))"
proof (induction n arbitrary: fromBlock w)
  case 0
  show ?case by simp
next
  case (Suc n)
  show ?case
  proof (cases "fromBlock \<le> currentBlock")
    case False
    then show ?thesis by (simp add: batch_loop_exit)
  next
    case True
    let ?to = "chunk_end batchSize currentBlock fromBlock"
    obtain w1 r where p: "processBlockRange env config fromBlock ?to w = (w1, r)"
      by (cases "processBlockRange env config fromBlock ?to w")
    show ?thesis
    proof (cases r)
      case (Some e)
      have "w1 = w" using p Some processBlockRange_error_unchanged by blast
      then show ?thesis
        using batch_loop_step_error [OF True, of env config batchSize w w1 e n] p Some by simp
    next
      case None
      define w2 where "w2 = updateLastProcessedBlock env (Address config) ?to w1"
      have step: "batch_loop (Suc n) env config batchSize currentBlock fromBlock w =
                  batch_loop n env config batchSize currentBlock (fromBlock + batchSize) w2"
        unfolding w2_def using p None by (intro batch_loop_step_ok [OF True]) simp
      obtain logs where l: "eth_FilterLogs env (transfer_query config fromBlock ?to) = Inr logs"
        using p None by (auto simp: processBlockRange_def split: sum.splits)
      have "set (log_output w) \<subseteq> set (log_output w1)"
        using p l process_logs_log_output_grows [of w env config logs]
        by (auto simp: processBlockRange_def printf_def)
      then have "set (log_output w) \<subseteq> set (log_output w2)"
        by (simp add: w2_def updateLastProcessedBlock_log_output)
      then show ?thesis
        unfolding step using Suc.IH [where fromBlock = "fromBlock + batchSize" and w = w2] by blast
    qed
  qed
qed

lemma batch_loop_checkpoint_after_processing:
  assumes "checkpoint env config (fst (batch_loop n env config batchSize currentBlock fromBlock w)) \<noteq>
           checkpoint env config w"
  shows "\<exists>c logs.
           checkpoint env config (fst (batch_loop n env config batchSize currentBlock fromBlock w)) = Some c \<and>
           eth_FilterLogs env (transfer_query config fromBlock c) = Inr logs \<and>
           ProcessedEvents (length logs) (Name config) fromBlock c \<in>
             set (log_output (fst (batch_loop n env config batchSize currentBlock fromBlock w))) \<and>
           (\<forall>l\<in>set logs.
              HashHex (lTxHash l) \<in> set (map TxHash
                (transactions (fst (batch_loop n env config batchSize currentBlock fromBlock w)))) \<or>
              (\<forall>u. \<exists>e. processTransferEvent env config l u = (u, Some e)))"
proof (cases n)
  case 0
  then show ?thesis using assms by simp
next
  case (Suc j)
  let ?k = "AddressHex env (Address config)"
  show ?thesis
  proof (cases "fromBlock \<le> currentBlock")
    case False
    then show ?thesis using assms Suc by (simp add: batch_loop_exit)
  next
    case True
    let ?to = "chunk_end batchSize currentBlock fromBlock"
    obtain w1 r where p: "processBlockRange env config fromBlock ?to w = (w1, r)"
      by (cases "processBlockRange env config fromBlock ?to w")
    show ?thesis
    proof (cases r)
      case (Some e)
      have "w1 = w" using p Some processBlockRange_error_unchanged by blast
      then show ?thesis
        using batch_loop_step_error [OF True, of env config batchSize w w1 e j] p Some assms Suc
        by simp
    next
      case None
      define w2 where "w2 = updateLastProcessedBlock env (Address config) ?to w1"
      define w3 where "w3 = fst (batch_loop j env config batchSize currentBlock (fromBlock + batchSize) w2)"
      have step: "fst (batch_loop n env config batchSize currentBlock fromBlock w) = w3"
        unfolding w2_def w3_def Suc using p None
        by (simp add: batch_loop_step_ok [OF True, of env config batchSize w w1 j])
      have b1: "block_progress w1 = block_progress w"
        using processBlockRange_block_progress [of env config fromBlock ?to w] p by simp
      have new: "block_progress w ?k = None"
      proof (rule ccontr)
        assume "block_progress w ?k \<noteq> None"
        then obtain c0 where c0: "block_progress w ?k = Some c0" by blast
        then have "block_progress w2 ?k = Some c0"
          unfolding w2_def using b1 by (intro updateLastProcessedBlock_keeps) simp
        then have "block_progress w3 ?k = Some c0"
          unfolding w3_def by (rule batch_loop_keeps)
        then show False using assms c0 unfolding step by (simp add: checkpoint_def)
      qed
      then have "block_progress w2 ?k = Some ?to"
        by (simp add: w2_def updateLastProcessedBlock_def b1)
      then have "block_progress w3 ?k = Some ?to"
        unfolding w3_def by (rule batch_loop_keeps)
      then have c: "checkpoint env config w3 = Some ?to"
        by (simp add: checkpoint_def)
      obtain logs where l: "eth_FilterLogs env (transfer_query config fromBlock ?to) = Inr logs"
        using p None by (auto simp: processBlockRange_def split: sum.splits)
      have w1: "w1 = printf (ProcessedEvents (length logs) (Name config) fromBlock ?to)
                  (process_logs env config logs w)"
        using p l by (simp add: processBlockRange_def)
      have "ProcessedEvents (length logs) (Name config) fromBlock ?to \<in> set (log_output w2)"
        by (simp add: w2_def updateLastProcessedBlock_log_output w1 printf_def)
      then have line: "ProcessedEvents (length logs) (Name config) fromBlock ?to \<in> set (log_output w3)"
        unfolding w3_def using batch_loop_log_output_grows by blast
      have t2: "transactions w2 = transactions (process_logs env config logs w)"
        by (simp add: w2_def updateLastProcessedBlock_transactions w1 printf_def)
      obtain new where t3: "transactions w3 = transactions w2 @ new"
        unfolding w3_def using batch_loop_transactions_grow by blast
      have settled: "\<forall>l\<in>set logs.
              HashHex (lTxHash l) \<in> set (map TxHash (transactions w3)) \<or>
              (\<forall>u. \<exists>e. processTransferEvent env config l u = (u, Some e))"
        using process_logs_settles [of logs env config w] unfolding t3 t2 by auto
      show ?thesis
        unfolding step using c l line settled by blast
    qed
  qed
qed

lemma tick_checkpoint_after_processing:
  assumes "checkpoint env config (fst (processContractEvents n env config w)) \<noteq> checkpoint env config w"
  shows "\<exists>c fromBlock logs.
           checkpoint env config (fst (processContractEvents n env config w)) = Some c \<and>
           eth_FilterLogs env (transfer_query config fromBlock c) = Inr logs \<and>
           ProcessedEvents (length logs) (Name config) fromBlock c \<in>
             set (log_output (fst (processContractEvents n env config w))) \<and>
           (\<forall>l\<in>set logs.
              HashHex (lTxHash l) \<in> set (map TxHash
                (transactions (fst (processContractEvents n env config w)))) \<or>
              (\<forall>u. \<exists>e. processTransferEvent env config l u = (u, Some e)))"
proof (cases rule: tick_shape [of env config w])
  case (height e)
  then show ?thesis using assms by simp
next
  case idle
  then show ?thesis using assms by simp
next
  case (run currentBlock fromBlock)
  show ?thesis
    using batch_loop_checkpoint_after_processing
      [of env config n "word_of_int (batch_size env)" currentBlock fromBlock w] assms
    unfolding run by blast
qed

text \<open>
  C4, as the claim states it, fails in its second half.  With a node that returns the
  Transfer log of the chunk \<open>[101, 150]\<close> and cannot deliver the header of any block,
  \<^verbatim>\<open>processTransferEvent\<close> fails for the log, the error is logged and the chunk counts
  as processed: the tick returns without error and has made 150 the checkpoint of a
  contract that had none, and no record of the chunk has been persisted.
\<close>

theorem unpersisted_range_advances_checkpoint:
  "checkpoint headerless_env example_config empty_world = None \<and>
   eth_FilterLogs headerless_env (transfer_query example_config 101 150) = Inr [transfer_log] \<and>
   snd (processContractEvents (Suc (Suc 0)) headerless_env example_config empty_world) = Some None \<and>
   checkpoint headerless_env example_config
     (fst (processContractEvents (Suc (Suc 0)) headerless_env example_config empty_world)) = Some 150 \<and>
   transactions (fst (processContractEvents (Suc (Suc 0)) headerless_env example_config empty_world)) = [] \<and>
   log_output (fst (processContractEvents (Suc (Suc 0)) headerless_env example_config empty_world)) =
     [ErrorProcessingTransferEvent (FailedToGetBlock (RPCError ''timeout'')),
      ProcessedEvents 1 ''USDC'' 101 150]"
  by (simp add: indexer_defs instance_defs batch_loop.simps(2) replicate_numeral_Cons)

text \<open>
  C4, amended.  The checkpoint of a contract never decreases: during a tick, the value
  after \<open>n\<close> tests of the loop condition is at most the value after any \<open>m \<ge> n\<close>, and
  over the events of a monitor the height stored for any address is at most the height
  stored for it afterwards.  A tick changes the checkpoint only to the end of a block
  range that it has logged as processed: the logs of the range were fetched, and each of
  them either has a record with its transaction hash in the Event Store or is refused by
  \<^verbatim>\<open>processTransferEvent\<close> in whatever state it is given (it does not decode, the
  header of its block cannot be fetched, or the store refuses the insert), so that the
  loop has skipped it.
\<close>

theorem checkpoint_never_decreases:
  "(n \<le> m \<longrightarrow>
      checkpoint_le (checkpoint env config (fst (processContractEvents n env config w)))
        (checkpoint env config (fst (processContractEvents m env config w)))) \<and>
   checkpoint_le (block_progress w k) (block_progress (fst (monitor_loop fuel config evs w)) k) \<and>
   (checkpoint env config (fst (processContractEvents n env config w)) \<noteq> checkpoint env config w \<longrightarrow>
      (\<exists>c fromBlock logs.
         checkpoint env config (fst (processContractEvents n env config w)) = Some c \<and>
         eth_FilterLogs env (transfer_query config fromBlock c) = Inr logs \<and>
         ProcessedEvents (length logs) (Name config) fromBlock c \<in>
           set (log_output (fst (processContractEvents n env config w))) \<and>
         (\<forall>l\<in>set logs.
            HashHex (lTxHash l) \<in> set (map TxHash
              (transactions (fst (processContractEvents n env config w)))) \<or>
            (\<forall>u. \<exists>e. processTransferEvent env config l u = (u, Some e)))))"
proof (intro conjI impI)
  assume "n \<le> m"
  then show "checkpoint_le (checkpoint env config (fst (processContractEvents n env config w)))
        (checkpoint env config (fst (processContractEvents m env config w)))"
    unfolding checkpoint_def by (rule tick_mono)
next
  show "checkpoint_le (block_progress w k) (block_progress (fst (monitor_loop fuel config evs w)) k)"
    by (rule checkpoint_le_keeps) (simp add: monitor_keeps)
next
  assume "checkpoint env config (fst (processContractEvents n env config w)) \<noteq> checkpoint env config w"
  then show "\<exists>c fromBlock logs.
         checkpoint env config (fst (processContractEvents n env config w)) = Some c \<and>
         eth_FilterLogs env (transfer_query config fromBlock c) = Inr logs \<and>
         ProcessedEvents (length logs) (Name config) fromBlock c \<in>
           set (log_output (fst (processContractEvents n env config w))) \<and>
         (\<forall>l\<in>set logs.
            HashHex (lTxHash l) \<in> set (map TxHash
              (transactions (fst (processContractEvents n env config w)))) \<or>
            (\<forall>u. \<exists>e. processTransferEvent env config l u = (u, Some e)))"
    by (rule tick_checkpoint_after_processing)
qed

theorem checkpoint_never_decreases_witness:
  "checkpoint busy_env example_config empty_world = None \<and>
   checkpoint busy_env example_config
     (fst (processContractEvents (Suc (Suc 0)) busy_env example_config empty_world)) = Some 150 \<and>
   checkpoint_le
     (checkpoint busy_env example_config
        (fst (processContractEvents (Suc (Suc 0)) busy_env example_config empty_world)))
     (checkpoint busy_env example_config
        (fst (processContractEvents (Suc (Suc (Suc 0))) busy_env example_config empty_world))) \<and>
   checkpoint_le (block_progress resumed_world (HashHex (Address example_config)))
     (block_progress
        (fst (monitor_loop (Suc (Suc (Suc 0))) example_config [Tick quiet_env, StopSignal] resumed_world))
        (HashHex (Address example_config))) \<and>
   (\<exists>fromBlock. ProcessedEvents 1 ''USDC'' fromBlock 150 \<in> set (log_output
      (fst (processContractEvents (Suc (Suc 0)) busy_env example_config empty_world)))) \<and>
   (HashHex (lTxHash transfer_log) \<in> set (map TxHash (transactions
      (fst (processContractEvents (Suc (Suc 0)) busy_env example_config empty_world)))) \<or>
    (\<forall>u. \<exists>e. processTransferEvent busy_env example_config transfer_log u = (u, Some e)))"
proof -
  let ?W = "fst (processContractEvents (Suc (Suc 0)) busy_env example_config empty_world)"
  note t = checkpoint_never_decreases [where env = busy_env and config = example_config
      and w = empty_world and n = "Suc (Suc 0)" and m = "Suc (Suc (Suc 0))"]
  note t' = checkpoint_never_decreases [where w = resumed_world and config = example_config
      and k = "HashHex (Address example_config)" and fuel = "Suc (Suc (Suc 0))"
      and evs = "[Tick quiet_env, StopSignal]"]
  have a: "checkpoint busy_env example_config empty_world = None"
    by (simp add: checkpoint_def instance_defs)
  have b: "checkpoint busy_env example_config ?W = Some 150"
    by (simp add: indexer_defs instance_defs batch_loop.simps(2) String_of.simps replicate_numeral_Cons)
  have h: "Suc (Suc 0) \<le> Suc (Suc (Suc 0))"
    by simp
  from t h have c: "checkpoint_le (checkpoint busy_env example_config ?W)
     (checkpoint busy_env example_config
        (fst (processContractEvents (Suc (Suc (Suc 0))) busy_env example_config empty_world)))"
    by blast
  from t' have d: "checkpoint_le (block_progress resumed_world (HashHex (Address example_config)))
     (block_progress
        (fst (monitor_loop (Suc (Suc (Suc 0))) example_config [Tick quiet_env, StopSignal] resumed_world))
        (HashHex (Address example_config)))"
    by blast
  have ne: "checkpoint busy_env example_config ?W \<noteq> checkpoint busy_env example_config empty_world"
    by (simp only: a b) simp
  from t ne obtain c0 fromBlock logs where
    e1: "checkpoint busy_env example_config ?W = Some c0"
    and e2: "eth_FilterLogs busy_env (transfer_query example_config fromBlock c0) = Inr logs"
    and e3: "ProcessedEvents (length logs) (Name example_config) fromBlock c0 \<in> set (log_output ?W)"
    and e4: "\<forall>l\<in>set logs.
            HashHex (lTxHash l) \<in> set (map TxHash (transactions ?W)) \<or>
            (\<forall>u. \<exists>e. processTransferEvent busy_env example_config l u = (u, Some e))"
    by blast
  have c0: "c0 = 150" using e1 b by simp
  have logs: "logs = [transfer_log]"
    using e2 by (simp add: busy_env_def quiet_env_def)
  have nm: "Name example_config = ''USDC''"
    by (simp add: example_config_def)
  have f: "\<exists>fromBlock. ProcessedEvents 1 ''USDC'' fromBlock 150 \<in> set (log_output ?W)"
    using e3 unfolding c0 logs nm by auto
  have g: "HashHex (lTxHash transfer_log) \<in> set (map TxHash (transactions ?W)) \<or>
    (\<forall>u. \<exists>e. processTransferEvent busy_env example_config transfer_log u = (u, Some e))"
    using e4 unfolding logs by simp
  show ?thesis
    using a b c d f g by blast
qed

section \<open>Fetch failures\<close>

lemma batch_loop_error_point:
  assumes nw: "unat currentBlock + unat batchSize < 2 ^ 64"
  shows "1 \<le> unat fromBlock \<Longrightarrow>
         (\<forall>c. checkpoint env config w = Some c \<longrightarrow> unat c < unat fromBlock) \<Longrightarrow>
         batch_loop n env config batchSize currentBlock fromBlock w =
           (w', Some (Some (FailedToProcessBlocks f t e))) \<Longrightarrow>
         unat fromBlock \<le> unat f \<and> (\<forall>c. checkpoint env config w' = Some c \<longrightarrow> unat c < unat f)"
proof (induction n arbitrary: fromBlock w)
  case 0
  then show ?case by simp
next
  case (Suc n)
  let ?B = "unat batchSize" and ?c = "unat currentBlock" and ?f = "unat fromBlock"
  show ?case
  proof (cases "fromBlock \<le> currentBlock")
    case False
    then show ?thesis using Suc.prems(3) by (simp add: batch_loop_exit)
  next
    case True
    let ?to = "chunk_end batchSize currentBlock fromBlock"
    obtain w1 r where p: "processBlockRange env config fromBlock ?to w = (w1, r)"
      by (cases "processBlockRange env config fromBlock ?to w")
    show ?thesis
    proof (cases r)
      case (Some err)
      have "w1 = w" using p Some processBlockRange_error_unchanged by blast
      then show ?thesis
        using batch_loop_step_error [OF True, of env config batchSize w w1 err n] p Some Suc.prems
        by simp
    next
      case None
      have pos: "1 \<le> ?f + ?B" using Suc.prems(1) by arith
      have u: "unat (fromBlock + batchSize) = ?f + ?B"
        by (rule step_arith(1) [OF True nw pos])
      have t: "unat ?to = min (?f + ?B - 1) ?c"
        by (rule step_arith(2) [OF True nw pos])
      define w2 where "w2 = updateLastProcessedBlock env (Address config) ?to w1"
      have step: "batch_loop (Suc n) env config batchSize currentBlock fromBlock w =
                  batch_loop n env config batchSize currentBlock (fromBlock + batchSize) w2"
        unfolding w2_def using p None by (intro batch_loop_step_ok [OF True]) simp
      have b1: "block_progress w1 = block_progress w"
        using processBlockRange_block_progress [of env config fromBlock ?to w] p by simp
      have run: "batch_loop n env config batchSize currentBlock (fromBlock + batchSize) w2 =
           (w', Some (Some (FailedToProcessBlocks f t e)))"
        using Suc.prems(3) unfolding step .
      have i1: "1 \<le> unat (fromBlock + batchSize)" using u pos by simp
      have lt: "unat ?to < ?f + ?B" unfolding t using pos by arith
      have i2: "\<forall>c. checkpoint env config w2 = Some c \<longrightarrow> unat c < unat (fromBlock + batchSize)"
      proof (intro allI impI)
        fix c assume c: "checkpoint env config w2 = Some c"
        show "unat c < unat (fromBlock + batchSize)"
        proof (cases "checkpoint env config w")
          case None
          then have "c = ?to"
            using c by (simp add: checkpoint_def w2_def updateLastProcessedBlock_def b1)
          then show ?thesis using lt u by simp
        next
          case (Some c0)
          then have "c = c0"
            using c by (simp add: checkpoint_def w2_def updateLastProcessedBlock_def b1)
          then have "unat c < ?f" using Suc.prems(2) Some by simp
          then show ?thesis using u by simp
        qed
      qed
      from Suc.IH [OF i1 i2 run] show ?thesis using u by simp
    qed
  qed
qed

lemma tick_error_point:
  assumes "readable env" and "in_range env"
    and "processContractEvents fuel env config w = (w', Some (Some (FailedToProcessBlocks f t e)))"
  shows "unat (StartBlock config) < unat f \<and>
         (\<forall>c. checkpoint env config w' = Some c \<longrightarrow> unat c < unat f)"
proof (cases "eth_BlockNumber env")
  case (Inl err)
  then show ?thesis using assms(3) by (simp add: processContractEvents_def Let_def)
next
  case (Inr currentBlock)
  define stored where "stored = getLastProcessedBlock env (Address config) w"
  define lastBlock where "lastBlock = (if stored < StartBlock config then StartBlock config else stored)"
  have unf: "processContractEvents fuel env config w =
           (if lastBlock \<ge> currentBlock then (w, Some None)
            else batch_loop fuel env config (word_of_int (batch_size env)) currentBlock (lastBlock + 1) w)"
    by (rule processContractEvents_unfold [OF Inr]) (simp add: lastBlock_def stored_def)
  have nw: "unat currentBlock + unat (word_of_int (batch_size env) :: u64) < 2 ^ 64"
    using assms(2) Inr by (simp add: in_range_def)
  show ?thesis
  proof (cases "lastBlock \<ge> currentBlock")
    case True
    then show ?thesis using assms(3) unf by simp
  next
    case False
    then have lt: "unat lastBlock < unat currentBlock" by (simp add: word_le_nat_alt)
    have "unat lastBlock + 1 < 2 ^ LENGTH(64)"
      using lt unsigned_less [of currentBlock, where 'a = nat] by simp
    then have u1: "unat (lastBlock + 1) = unat lastBlock + 1"
      using unat_add_lem [of lastBlock 1] by simp
    have ul: "unat lastBlock = max (unat stored) (unat (StartBlock config))"
      by (simp add: lastBlock_def word_less_nat_alt max_def)
    have i1: "1 \<le> unat (lastBlock + 1)" using u1 by simp
    have i2: "\<forall>c. checkpoint env config w = Some c \<longrightarrow> unat c < unat (lastBlock + 1)"
    proof (intro allI impI)
      fix c assume "checkpoint env config w = Some c"
      then have "stored = c"
        using assms(1) by (simp add: stored_def getLastProcessedBlock_def checkpoint_def readable_def)
      then show "unat c < unat (lastBlock + 1)" using ul u1 by simp
    qed
    have run: "batch_loop fuel env config (word_of_int (batch_size env)) currentBlock (lastBlock + 1) w =
        (w', Some (Some (FailedToProcessBlocks f t e)))"
      using assms(3) unf False by simp
    from batch_loop_error_point [OF nw i1 i2 run]
    have "unat (lastBlock + 1) \<le> unat f"
      and r: "\<forall>c. checkpoint env config w' = Some c \<longrightarrow> unat c < unat f"
      by blast+
    then have "unat (StartBlock config) < unat f" using ul u1 by simp
    then show ?thesis using r by blast
  qed
qed

lemma next_tick_start:
  assumes "readable env" and "in_range env"
    and "processContractEvents fuel env config w = (w', Some (Some (FailedToProcessBlocks f t e)))"
    and "AddressHex env' = AddressHex env"
    and "eth_BlockNumber env' = Inr currentBlock'" and "f \<le> currentBlock'"
  shows "\<exists>from'. from' \<le> f \<and>
           processContractEvents fuel' env' config (printf l w') =
             batch_loop fuel' env' config (word_of_int (batch_size env')) currentBlock' from' (printf l w')"
proof -
  from tick_error_point [OF assms(1,2,3)]
  have s: "unat (StartBlock config) < unat f"
    and c: "\<forall>c. checkpoint env config w' = Some c \<longrightarrow> unat c < unat f"
    by blast+
  define stored where "stored = getLastProcessedBlock env' (Address config) (printf l w')"
  define lastBlock where "lastBlock = (if stored < StartBlock config then StartBlock config else stored)"
  have "stored = 0 \<or> checkpoint env config w' = Some stored"
    using assms(4)
    by (simp add: stored_def getLastProcessedBlock_def checkpoint_def printf_def split: option.splits)
  then have "unat stored < unat f"
    using s c by auto
  moreover have ul: "unat lastBlock = max (unat stored) (unat (StartBlock config))"
    by (simp add: lastBlock_def word_less_nat_alt max_def)
  ultimately have fl: "unat lastBlock < unat f"
    using s by simp
  have "unat lastBlock + 1 < 2 ^ LENGTH(64)"
    using fl unsigned_less [of f, where 'a = nat] by simp
  then have "unat (lastBlock + 1) = unat lastBlock + 1"
    using unat_add_lem [of lastBlock 1] by simp
  then have le: "lastBlock + 1 \<le> f"
    using fl by (simp add: word_le_nat_alt)
  have "unat f \<le> unat currentBlock'" using assms(6) by (simp add: word_le_nat_alt)
  then have lt: "\<not> lastBlock \<ge> currentBlock'"
    using fl by (simp add: word_le_nat_alt)
  have "processContractEvents fuel' env' config (printf l w') =
           (if lastBlock \<ge> currentBlock' then (printf l w', Some None)
            else batch_loop fuel' env' config (word_of_int (batch_size env')) currentBlock' (lastBlock + 1)
                   (printf l w'))"
    by (rule processContractEvents_unfold [OF assms(5)]) (simp add: lastBlock_def stored_def)
  then have "processContractEvents fuel' env' config (printf l w') =
        batch_loop fuel' env' config (word_of_int (batch_size env')) currentBlock' (lastBlock + 1) (printf l w')"
    using lt by simp
  then show ?thesis using le by blast
qed

lemma monitor_keeps_running:
  "StopSignal \<notin> set evs \<Longrightarrow> snd (monitor_loop fuel config evs w) = False"
proof (induction evs arbitrary: w)
  case Nil
  show ?case by simp
next
  case (Cons ev evs)
  then obtain env where ev: "ev = Tick env" by (cases ev) simp_all
  have rest: "StopSignal \<notin> set evs" using Cons.prems by simp
  obtain w' r where p: "processContractEvents fuel env config w = (w', r)"
    by (cases "processContractEvents fuel env config w")
  show ?case
  proof (cases r)
    case None
    then show ?thesis using ev p by simp
  next
    case (Some r')
    then show ?thesis
      using ev p Cons.IH [OF rest] by (cases r') simp_all
  qed
qed

text \<open>
  C6, as the claim states it, fails: the range that the failed tick worked on need not be
  the one the next tick works on.  \<^verbatim>\<open>getLastProcessedBlock\<close> answers 0 for any error of
  the read, so with the checkpoint 150 stored and the progress table unreadable at one
  tick, the tick starts after the start height 100 and its query for \<open>[101, 150]\<close> times
  out; the next tick reads the checkpoint and processes \<open>[151, 200]\<close> and \<open>[201, 250]\<close>,
  not the chunk that failed.  And the batch size is converted to \<^verbatim>\<open>uint64\<close> as it is:
  with a configured -1 and no checkpoint, the chunk that starts at block 101 is followed
  by one that starts at block 100, whose query times out; the next tick, with a batch
  size of 50, starts at block 101.
\<close>

theorem failed_chunk_is_not_retried:
  "checkpoint unreadable_env example_config resumed_world = Some 150 \<and>
   processContractEvents (Suc 0) (flaky_at 101 unreadable_env) example_config resumed_world =
     (resumed_world,
      Some (Some (FailedToProcessBlocks 101 150 (FailedToFilterLogs (RPCError ''timeout''))))) \<and>
   processed_ranges (log_output (fst (monitor_loop (Suc (Suc (Suc 0))) example_config
       [Tick (flaky_at 101 unreadable_env), Tick quiet_env] resumed_world))) =
     [(151, 200), (201, 250)] \<and>
   snd (processContractEvents (Suc (Suc 0)) (flaky_at 100 negative_batch_env) example_config empty_world) =
     Some (Some (FailedToProcessBlocks 100 98 (FailedToFilterLogs (RPCError ''timeout'')))) \<and>
   processed_ranges (log_output (fst (monitor_loop (Suc (Suc (Suc (Suc 0)))) example_config
       [Tick (flaky_at 100 negative_batch_env), Tick quiet_env] empty_world))) =
     [(101, 99), (101, 150), (151, 200), (201, 250)]"
  by (simp add: indexer_defs instance_defs batch_loop.simps(2))

text \<open>
  C6, amended.  When the log query of a chunk fails, the batch loop returns at once with
  the error wrapped for that chunk and the state as it was before the chunk: the
  checkpoint is not written for it, and no later chunk is processed in the tick.
  \<^verbatim>\<open>monitorContract\<close> logs the error of the tick and waits for the next event: after the
  failed tick the monitor has not returned, and no sequence of ticks makes it return,
  whatever their errors.  When the failed tick could read the progress table and its
  chain height plus its batch size stayed below \<open>2\<^sup>6\<^sup>4\<close>, the next tick, at a chain
  height that has reached the failed chunk, starts its batch loop at or before the first
  block of the chunk that failed (\<^verbatim>\<open>Address.Hex\<close>, a parameter here, being the same
  function at both ticks).
\<close>

theorem fetch_failure_aborts_tick:
  "(fromBlock \<le> currentBlock \<and>
    eth_FilterLogs env (transfer_query config fromBlock (chunk_end batchSize currentBlock fromBlock)) =
      Inl err \<longrightarrow>
      batch_loop (Suc n) env config batchSize currentBlock fromBlock w =
        (w, Some (Some (FailedToProcessBlocks fromBlock (chunk_end batchSize currentBlock fromBlock)
                          (FailedToFilterLogs err))))) \<and>
   (processContractEvents fuel env config w = (w', Some (Some e)) \<longrightarrow>
      monitor_loop fuel config [Tick env] w =
        (printf (ErrorProcessingEvents (Name config) e) w', False) \<and>
      monitor_loop fuel config (Tick env # evs) w =
        monitor_loop fuel config evs (printf (ErrorProcessingEvents (Name config) e) w')) \<and>
   (StopSignal \<notin> set evs \<longrightarrow> snd (monitor_loop fuel config evs w) = False) \<and>
   (readable env \<and> in_range env \<and>
    processContractEvents fuel env config w = (w', Some (Some (FailedToProcessBlocks f t e'))) \<and>
    AddressHex env' = AddressHex env \<and>
    eth_BlockNumber env' = Inr currentBlock' \<and> f \<le> currentBlock' \<longrightarrow>
      (\<exists>from'. from' \<le> f \<and>
         processContractEvents fuel' env' config
             (printf (ErrorProcessingEvents (Name config) (FailedToProcessBlocks f t e')) w') =
           batch_loop fuel' env' config (word_of_int (batch_size env')) currentBlock' from'
             (printf (ErrorProcessingEvents (Name config) (FailedToProcessBlocks f t e')) w')))"
proof (intro conjI impI)
  assume a: "fromBlock \<le> currentBlock \<and>
    eth_FilterLogs env (transfer_query config fromBlock (chunk_end batchSize currentBlock fromBlock)) =
      Inl err"
  then have "processBlockRange env config fromBlock (chunk_end batchSize currentBlock fromBlock) w =
      (w, Some (FailedToFilterLogs err))"
    by (simp add: processBlockRange_def)
  then show "batch_loop (Suc n) env config batchSize currentBlock fromBlock w =
        (w, Some (Some (FailedToProcessBlocks fromBlock (chunk_end batchSize currentBlock fromBlock)
                          (FailedToFilterLogs err))))"
    using a by (intro batch_loop_step_error) simp_all
next
  assume "processContractEvents fuel env config w = (w', Some (Some e))"
  then show "monitor_loop fuel config [Tick env] w =
        (printf (ErrorProcessingEvents (Name config) e) w', False)"
    by simp
next
  assume "processContractEvents fuel env config w = (w', Some (Some e))"
  then show "monitor_loop fuel config (Tick env # evs) w =
        monitor_loop fuel config evs (printf (ErrorProcessingEvents (Name config) e) w')"
    by simp
next
  assume "StopSignal \<notin> set evs"
  then show "snd (monitor_loop fuel config evs w) = False"
    by (rule monitor_keeps_running)
next
  assume a: "readable env \<and> in_range env \<and>
    processContractEvents fuel env config w = (w', Some (Some (FailedToProcessBlocks f t e'))) \<and>
    AddressHex env' = AddressHex env \<and>
    eth_BlockNumber env' = Inr currentBlock' \<and> f \<le> currentBlock'"
  show "\<exists>from'. from' \<le> f \<and>
         processContractEvents fuel' env' config
             (printf (ErrorProcessingEvents (Name config) (FailedToProcessBlocks f t e')) w') =
           batch_loop fuel' env' config (word_of_int (batch_size env')) currentBlock' from'
             (printf (ErrorProcessingEvents (Name config) (FailedToProcessBlocks f t e')) w')"
    by (rule next_tick_start [of env fuel config w w' f t e' env' currentBlock']) (use a in blast)+
qed

theorem fetch_failure_aborts_tick_witness:
  "batch_loop (Suc 0) (flaky_at 201 quiet_env) example_config 50 250 201 empty_world =
     (empty_world, Some (Some (FailedToProcessBlocks 201 (chunk_end 50 250 201)
        (FailedToFilterLogs (RPCError ''timeout''))))) \<and>
   snd (processContractEvents (Suc (Suc (Suc 0))) (flaky_at 201 quiet_env) example_config empty_world) =
     Some (Some (FailedToProcessBlocks 201 250 (FailedToFilterLogs (RPCError ''timeout'')))) \<and>
   checkpoint quiet_env example_config
     (fst (processContractEvents (Suc (Suc (Suc 0))) (flaky_at 201 quiet_env) example_config empty_world)) =
     Some 150 \<and>
   monitor_loop (Suc (Suc (Suc 0))) example_config [Tick (flaky_at 201 quiet_env)] empty_world =
     (printf (ErrorProcessingEvents (Name example_config)
          (FailedToProcessBlocks 201 250 (FailedToFilterLogs (RPCError ''timeout''))))
        (fst (processContractEvents (Suc (Suc (Suc 0))) (flaky_at 201 quiet_env) example_config empty_world)),
      False) \<and>
   snd (monitor_loop (Suc (Suc (Suc 0))) example_config
          [Tick (flaky_at 201 quiet_env), Tick quiet_env] empty_world) = False \<and>
   (\<exists>from'. from' \<le> 201 \<and>
      processContractEvents (Suc (Suc (Suc 0))) quiet_env example_config
          (printf (ErrorProcessingEvents (Name example_config)
               (FailedToProcessBlocks 201 250 (FailedToFilterLogs (RPCError ''timeout''))))
             (fst (processContractEvents (Suc (Suc (Suc 0))) (flaky_at 201 quiet_env) example_config
                empty_world))) =
        batch_loop (Suc (Suc (Suc 0))) quiet_env example_config (word_of_int (batch_size quiet_env)) 250 from'
          (printf (ErrorProcessingEvents (Name example_config)
               (FailedToProcessBlocks 201 250 (FailedToFilterLogs (RPCError ''timeout''))))
             (fst (processContractEvents (Suc (Suc (Suc 0))) (flaky_at 201 quiet_env) example_config
                empty_world)))) \<and>
   processed_ranges (log_output (fst (monitor_loop (Suc (Suc (Suc 0))) example_config
       [Tick (flaky_at 201 quiet_env), Tick quiet_env] empty_world))) =
     [(101, 150), (151, 200), (151, 200), (201, 250)]"
proof -
  let ?env = "flaky_at 201 quiet_env"
  let ?fuel = "Suc (Suc (Suc 0))"
  let ?err = "FailedToProcessBlocks 201 250 (FailedToFilterLogs (RPCError ''timeout''))"
  let ?W = "fst (processContractEvents ?fuel ?env example_config empty_world)"
  have s: "snd (processContractEvents ?fuel ?env example_config empty_world) = Some (Some ?err)"
    by (simp add: indexer_defs instance_defs batch_loop.simps(2))
  then have h: "processContractEvents ?fuel ?env example_config empty_world = (?W, Some (Some ?err))"
    by (simp add: prod_eq_iff)
  have c: "checkpoint quiet_env example_config ?W = Some 150"
    by (simp add: indexer_defs instance_defs batch_loop.simps(2))
  have h1: "(201 :: u64) \<le> 250 \<and>
      eth_FilterLogs ?env (transfer_query example_config 201 (chunk_end 50 250 201)) =
        Inl (RPCError ''timeout'')"
    by (simp add: indexer_defs instance_defs chunk_end_def)
  have h3: "StopSignal \<notin> set [Tick ?env, Tick quiet_env]"
    by simp
  have h4: "readable ?env \<and> in_range ?env \<and>
      processContractEvents ?fuel ?env example_config empty_world = (?W, Some (Some ?err)) \<and>
      AddressHex quiet_env = AddressHex ?env \<and>
      eth_BlockNumber quiet_env = Inr 250 \<and> (201 :: u64) \<le> 250"
    using h by (simp add: readable_def in_range_def instance_defs)
  note t = fetch_failure_aborts_tick [where fromBlock = 201 and currentBlock = 250
      and env = ?env and config = example_config and batchSize = 50
      and err = "RPCError ''timeout''" and n = 0 and w = empty_world
      and fuel = ?fuel and w' = ?W and e = ?err and evs = "[Tick ?env, Tick quiet_env]"
      and f = 201 and t = 250 and e' = "FailedToFilterLogs (RPCError ''timeout'')"
      and env' = quiet_env and currentBlock' = 250 and fuel' = ?fuel]
  from t h1 have r1: "batch_loop (Suc 0) ?env example_config 50 250 201 empty_world =
     (empty_world, Some (Some (FailedToProcessBlocks 201 (chunk_end 50 250 201)
        (FailedToFilterLogs (RPCError ''timeout'')))))"
    by blast
  from t h have r2: "monitor_loop ?fuel example_config [Tick ?env] empty_world =
     (printf (ErrorProcessingEvents (Name example_config) ?err) ?W, False)"
    by blast
  from t h3 have r3: "snd (monitor_loop ?fuel example_config [Tick ?env, Tick quiet_env] empty_world) = False"
    by blast
  from t h4 have r4: "\<exists>from'. from' \<le> 201 \<and>
      processContractEvents ?fuel quiet_env example_config
          (printf (ErrorProcessingEvents (Name example_config) ?err) ?W) =
        batch_loop ?fuel quiet_env example_config (word_of_int (batch_size quiet_env)) 250 from'
          (printf (ErrorProcessingEvents (Name example_config) ?err) ?W)"
    by blast
  have r5: "processed_ranges (log_output (fst (monitor_loop ?fuel example_config
       [Tick ?env, Tick quiet_env] empty_world))) =
     [(101, 150), (151, 200), (151, 200), (201, 250)]"
    by (simp add: indexer_defs instance_defs batch_loop.simps(2))
  show ?thesis
    using r1 s c r2 r3 r4 r5 by blast
qed

end
